theory Spec2Isabelle
  imports Complex_Main "HOL-Library.AList" "HOL-Library.Signed_Division"
begin

section \<open>Numbers and their printed form\<close>

text \<open>
  The service computes with JavaScript numbers, which are IEEE 754 doubles. Whole
  seconds and minutes are modelled as \<open>int\<close>; a window length is a rational, and the
  interval calculator is modelled twice: in double precision, as the program computes
  it (\<open>intervalInSeconds64\<close>), and in exact arithmetic (\<open>intervalInSeconds\<close>). The two
  give the same interval for every whole number of minutes from 1 to \<open>10^12\<close> (lemma
  \<open>interval64_agrees\<close>) and for the window 0; the query builders, whose callers pass
  whole minutes, are modelled with the exact one.

  \<open>toString\<close> is what a template literal prints for an integral number: the decimal
  numeral, with a minus sign below zero (JavaScript switches to exponent notation from
  \<open>10^21\<close> on, which no window length reaches).
\<close>

fun digits :: "nat \<Rightarrow> string" where
  "digits n = (if n < 10 then [''0123456789'' ! n]
               else digits (n div 10) @ [''0123456789'' ! (n mod 10)])"

declare digits.simps [simp del]

definition toString :: "int \<Rightarrow> string" where
  "toString n = (if n < 0 then CHR ''-'' # digits (nat (- n)) else digits (nat n))"

section \<open>Interval calculator\<close>

text \<open>
  \<^verbatim>\<open>
  private _computeInterval(timespan: number) {
      const numberOfPoints = 1000;
      const intervalInSeconds = Math.ceil(timespan / numberOfPoints * 60 / 10) * 10;
      return `PT${intervalInSeconds}S`;
  }
  \<close>
  The local constant \<open>intervalInSeconds\<close> is a definition of its own, so that theorems
  can speak about the number as well as about the string built from it. Here the
  quotient and the products are exact; the section after this one rounds each of them
  to a double.
\<close>

definition intervalInSeconds :: "rat \<Rightarrow> int" where
  "intervalInSeconds timespan =
     (let numberOfPoints = 1000 in \<lceil>timespan / numberOfPoints * 60 / 10\<rceil> * 10)"

definition computeInterval :: "rat \<Rightarrow> string" where
  "computeInterval timespan = ''PT'' @ toString (intervalInSeconds timespan) @ ''S''"

text \<open>
  The interval as the specification words it: the ceiling of
  \<open>windowMinutes / pointBudget * 60\<close>, rounded up to the next multiple of ten.
\<close>

definition roundUpToMultipleOf10 :: "int \<Rightarrow> int" where
  "roundUpToMultipleOf10 n = (if n mod 10 = 0 then n else n + (10 - n mod 10))"

definition spec_intervalSeconds :: "rat \<Rightarrow> int" where
  "spec_intervalSeconds windowMinutes =
     (let pointBudget = 1000 in roundUpToMultipleOf10 \<lceil>windowMinutes / pointBudget * 60\<rceil>)"

section \<open>Interval calculator in double precision\<close>

text \<open>
  A finite double is zero or \<open>k * 2^j\<close> for integers \<open>\<bar>k\<bar> < 2^53\<close> and
  \<open>- 1074 \<le> j\<close>. Every arithmetic operation of JavaScript returns the exact result
  rounded to the nearest double, a tie going to the double whose \<open>k\<close> is even.

  \<open>ilog2 x\<close> is the exponent \<open>e\<close> with \<open>2^e \<le> x < 2^(e+1)\<close> of a positive \<open>x\<close>
  (\<open>bitlen n\<close> is the number of binary digits of \<open>n\<close>); \<open>ulp x\<close> is the distance
  between the doubles around \<open>x\<close>, which is \<open>2^(e-52)\<close> and no less than \<open>2^(-1074)\<close>;
  \<open>round64 x\<close> is the double nearest to \<open>x\<close>. A result beyond the largest double
  would be infinite: the calculator meets none, since it multiplies a double by 60 only
  after dividing it by 1000.
\<close>

fun bitlen :: "nat \<Rightarrow> nat" where
  "bitlen n = (if n = 0 then 0 else Suc (bitlen (n div 2)))"

declare bitlen.simps [simp del]

definition ilog2 :: "rat \<Rightarrow> int" where
  "ilog2 x = (if 1 \<le> x then int (bitlen (nat \<lfloor>x\<rfloor>)) - 1
              else - int (bitlen (nat \<lceil>1 / x\<rceil> - 1)))"

definition roundHalfEven :: "rat \<Rightarrow> int" where
  "roundHalfEven y =
     (let f = \<lfloor>y\<rfloor>; r = y - of_int f
      in if r < 1 / 2 then f else if 1 / 2 < r then f + 1 else if even f then f else f + 1)"

definition ulp :: "rat \<Rightarrow> rat" where
  "ulp x = power_int 2 (max (ilog2 \<bar>x\<bar>) (- 1022) - 52)"

definition round64 :: "rat \<Rightarrow> rat" where
  "round64 x = (if x = 0 then 0 else of_int (roundHalfEven (x / ulp x)) * ulp x)"

text \<open>
  \<open>Math.ceil(timespan / numberOfPoints * 60 / 10) * 10\<close>, operation by operation, for a
  \<open>timespan\<close> that is a double: the quotient by 1000, its product with 60 and the
  quotient of that by 10 are rounded; \<open>Math.ceil\<close> is exact; the product with 10 is
  rounded. The result is integral, and the template literal prints it as \<open>toString\<close>
  does (it prints the negative zero, the ceiling of a number between \<open>- 1\<close> and 0,
  as \<open>0\<close>).
\<close>

definition intervalInSeconds64 :: "rat \<Rightarrow> int" where
  "intervalInSeconds64 timespan =
     (let numberOfPoints = 1000 in
      \<lfloor>round64 (of_int \<lceil>round64 (round64 (round64 (timespan / numberOfPoints) * 60) / 10)\<rceil>
                 * 10)\<rfloor>)"

definition computeInterval64 :: "rat \<Rightarrow> string" where
  "computeInterval64 timespan = ''PT'' @ toString (intervalInSeconds64 timespan) @ ''S''"

section \<open>Metric catalog\<close>

text \<open>
  \<open>metrics\<close> is an object literal whose keys are no array indices, so \<open>Object.keys\<close>
  lists them in the order in which they are written: the catalog is the list of its
  entries in that order.
\<close>

record MetricDefinition =
  appInsightsMetricId :: string
  segment :: string

definition metrics :: "(string \<times> MetricDefinition) list" where
  "metrics =
    [(''cpuUsage'', \<lparr>appInsightsMetricId = ''customMetrics/Cpu usage'', segment = ''cloud/roleInstance''\<rparr>),
     (''individualCpuUsage'', \<lparr>appInsightsMetricId = ''customMetrics/Cpu usage'', segment = ''customDimensions/[CPU #]''\<rparr>),
     (''gpuUsage'', \<lparr>appInsightsMetricId = ''customMetrics/Gpu usage'', segment = ''cloud/roleInstance''\<rparr>),
     (''individualGpuUsage'', \<lparr>appInsightsMetricId = ''customMetrics/Gpu usage'', segment = ''customDimensions/[GPU #]''\<rparr>),
     (''gpuMemory'', \<lparr>appInsightsMetricId = ''customMetrics/Gpu memory usage'', segment = ''cloud/roleInstance''\<rparr>),
     (''individualGpuMemory'', \<lparr>appInsightsMetricId = ''customMetrics/Gpu memory usage'', segment = ''customDimensions/[GPU #]''\<rparr>),
     (''memoryAvailable'', \<lparr>appInsightsMetricId = ''customMetrics/Memory available'', segment = ''cloud/roleInstance''\<rparr>),
     (''memoryUsed'', \<lparr>appInsightsMetricId = ''customMetrics/Memory used'', segment = ''cloud/roleInstance''\<rparr>),
     (''diskRead'', \<lparr>appInsightsMetricId = ''customMetrics/Disk read'', segment = ''cloud/roleInstance''\<rparr>),
     (''diskWrite'', \<lparr>appInsightsMetricId = ''customMetrics/Disk write'', segment = ''cloud/roleInstance''\<rparr>),
     (''diskUsed'', \<lparr>appInsightsMetricId = ''customMetrics/Disk usage'', segment = ''customDimensions/Disk,cloud/roleInstance''\<rparr>),
     (''diskFree'', \<lparr>appInsightsMetricId = ''customMetrics/Disk free'', segment = ''customDimensions/Disk,cloud/roleInstance''\<rparr>),
     (''networkRead'', \<lparr>appInsightsMetricId = ''customMetrics/Network read'', segment = ''cloud/roleInstance''\<rparr>),
     (''networkWrite'', \<lparr>appInsightsMetricId = ''customMetrics/Network write'', segment = ''cloud/roleInstance''\<rparr>)]"

section \<open>Filter composer\<close>

text \<open>
  Modelled from the spec: \<open>FilterBuilder\<close> of \<open>@batch-flask/core\<close> is not among the
  sources. Its expressions are the sum type the specification names: an equality
  predicate \<open>prop(name).eq(value)\<close> and the conjunction \<open>and(left, right)\<close>. The
  serialiser \<open>toOData\<close> stays a parameter of the query builder.
\<close>

datatype filter = PropEq string string | And filter filter

text \<open>
  \<^verbatim>\<open>
  private _buildFilter(poolId: string, nodeId?: string) {
      const poolFilter = FilterBuilder.prop("cloud/roleName").eq(poolId);
      if (nodeId) {
          const nodeFilter = FilterBuilder.prop("cloud/roleInstance").eq(nodeId);
          return FilterBuilder.and(poolFilter, nodeFilter);
      } else {
          return poolFilter;
      }
  }
  \<close>
  The node id is \<open>None\<close> for \<open>null\<close> (what \<open>getPoolPerformance\<close> passes). The test
  \<open>if (nodeId)\<close> is JavaScript truthiness: \<open>null\<close> and the empty string are falsy.
\<close>

definition truthy :: "string option \<Rightarrow> bool" where
  "truthy s = (case s of None \<Rightarrow> False | Some str \<Rightarrow> str \<noteq> [])"

definition buildFilter :: "string \<Rightarrow> string option \<Rightarrow> filter" where
  "buildFilter poolId nodeId =
     (let poolFilter = PropEq ''cloud/roleName'' poolId in
      if truthy nodeId then
        (let nodeFilter = PropEq ''cloud/roleInstance'' (the nodeId) in
         And poolFilter nodeFilter)
      else poolFilter)"

section \<open>Query builder\<close>

text \<open>
  A query descriptor. The fields \<open>id\<close>, \<open>filter\<close>, \<open>segment\<close> and \<open>top\<close> of the source
  carry a prime here, their plain names being taken.
\<close>

record 'f parameters =
  aggregation :: string
  metricId :: string
  filter' :: 'f
  interval :: string
  timespan :: string
  segment' :: string
  top' :: int

record 'f query =
  id' :: string
  parameters :: "'f parameters"

text \<open>
  \<^verbatim>\<open>
  private _buildQuery(poolId: string, nodeId: string, timespanInMinutes: number) {
      const timespan = `PT${timespanInMinutes}M`;
      const interval = this._computeInterval(timespanInMinutes);
      return Object.keys(metrics).map((id) => {
          const metric = metrics[id];
          return { id: id, parameters: { aggregation: "avg", metricId: metric.appInsightsMetricId,
                   filter: this._buildFilter(poolId, nodeId).toOData(),
                   interval, timespan, segment: metric.segment, top: 1000 } };
      });
  }
  \<close>
  The window is a whole number of minutes, since it is printed into the time span.
  There is no \<open>throw\<close> on this path: the builder returns its list for every window.
\<close>

definition buildQuery :: "(filter \<Rightarrow> 'f) \<Rightarrow> string \<Rightarrow> string option \<Rightarrow> int \<Rightarrow> 'f query list" where
  "buildQuery toOData poolId nodeId timespanInMinutes =
     (let timespan = ''PT'' @ toString timespanInMinutes @ ''M'';
          interval = computeInterval (of_int timespanInMinutes)
      in map (\<lambda>(ident, metric).
               \<lparr>id' = ident,
                parameters =
                  \<lparr>aggregation = ''avg'',
                   metricId = appInsightsMetricId metric,
                   filter' = toOData (buildFilter poolId nodeId),
                   interval = interval,
                   timespan = timespan,
                   segment' = segment metric,
                   top' = 1000\<rparr>\<rparr>)
             metrics)"

text \<open>
  The queries that \<open>getPoolPerformance\<close> and \<open>getNodePerformance\<close> post:
  \<open>this._buildQuery(poolId, null, lastNMinutes)\<close> and
  \<open>this._buildQuery(poolId, nodeId, lastNMinutes)\<close>.
\<close>

definition buildPoolQuery :: "(filter \<Rightarrow> 'f) \<Rightarrow> string \<Rightarrow> int \<Rightarrow> 'f query list" where
  "buildPoolQuery toOData poolId lastNMinutes = buildQuery toOData poolId None lastNMinutes"

definition buildNodeQuery :: "(filter \<Rightarrow> 'f) \<Rightarrow> string \<Rightarrow> string \<Rightarrow> int \<Rightarrow> 'f query list" where
  "buildNodeQuery toOData poolId nodeId lastNMinutes =
     buildQuery toOData poolId (Some nodeId) lastNMinutes"

section \<open>JavaScript objects used as dictionaries\<close>

text \<open>
  An object is modelled by the table of its own properties, in the order of their
  creation. It inherits from \<open>Object.prototype\<close>: the operator \<open>in\<close> also finds the
  inherited names, and an assignment to \<open>__proto__\<close> sets the prototype instead of
  creating a property. Assigning to an existing key keeps the key's place in the table.
  Reading \<open>obj[k]\<close> for an own key is \<open>map_of obj k\<close>.

  The table is not what a program sees when it enumerates the object: \<open>Object.keys\<close>,
  \<open>for ... in\<close> and \<open>JSON.stringify\<close> list the keys that are array indices first, in
  ascending numeric order, and the other keys after them, in the order of their
  creation. An array index is the decimal numeral, without a sign or a leading zero, of
  an integer from 0 to \<open>2^32 - 2\<close>. \<open>Object_keys\<close> is that enumeration; two tables with
  the same enumeration and the same values are one object to every reader.
\<close>

type_synonym 'v object = "(string \<times> 'v) list"

definition Object_prototype :: "string list" where
  "Object_prototype =
    [''constructor'', ''hasOwnProperty'', ''isPrototypeOf'', ''propertyIsEnumerable'',
     ''toLocaleString'', ''toString'', ''valueOf'', ''__proto__'',
     ''__defineGetter__'', ''__defineSetter__'', ''__lookupGetter__'', ''__lookupSetter__'']"

definition hasProperty :: "string \<Rightarrow> 'v object \<Rightarrow> bool" where
  "hasProperty k obj \<longleftrightarrow> k \<in> fst ` set obj \<or> k \<in> set Object_prototype"

definition setProperty :: "string \<Rightarrow> 'v \<Rightarrow> 'v object \<Rightarrow> 'v object" where
  "setProperty k v obj = (if k = ''__proto__'' then obj else AList.update k v obj)"

text \<open>
  \<open>digitValue\<close> is the value of a decimal digit and 10 for any other character;
  \<open>indexValue\<close> is the number that a string of digits denotes.
\<close>

definition digitValue :: "char \<Rightarrow> int" where
  "digitValue c =
     (case map_of (zip ''0123456789'' [0, 1, 2, 3, 4, 5, 6, 7, 8, 9]) c of
        Some d \<Rightarrow> d
      | None \<Rightarrow> 10)"

definition indexValue :: "string \<Rightarrow> int" where
  "indexValue k = foldl (\<lambda>a c. 10 * a + digitValue c) 0 k"

definition isArrayIndex :: "string \<Rightarrow> bool" where
  "isArrayIndex k \<longleftrightarrow>
     k \<noteq> [] \<and> list_all (\<lambda>c. digitValue c < 10) k \<and> (k = ''0'' \<or> hd k \<noteq> CHR ''0'')
     \<and> indexValue k < 4294967295"

definition ownKeyOrder :: "string list \<Rightarrow> string list" where
  "ownKeyOrder ks =
     sort_key indexValue (filter isArrayIndex ks) @ filter (\<lambda>k. \<not> isArrayIndex k) ks"

definition Object_keys :: "'v object \<Rightarrow> string list" where
  "Object_keys obj = ownKeyOrder (map fst obj)"
section \<open>Raw payload and reshaped series\<close>

text \<open>
  A time bucket carries \<open>start\<close> and \<open>end\<close>, two valid dates; the model holds the
  time values in milliseconds of \<open>new Date(segment.start)\<close> and
  \<open>new Date(segment.end)\<close>. A bucket of an individual-device metric nests one
  sub-aggregate per device. A sub-aggregate is a parsed JSON object (its property names
  are unique) whose properties are either an aggregate \<open>{avg: ...}\<close> (filed under the
  upstream metric id) or a dimension string (filed under the dimension's path); any of
  them, and \<open>avg\<close> itself, may be missing, which reads as \<open>undefined\<close>. Of the metric
  body \<open>metricResult.body.value\<close> the reshaper reads the buckets \<open>segments\<close>.
\<close>

datatype jsvalue = Undefined | Number rat

datatype property = Aggregate jsvalue | Dimension string

type_synonym individualSegment = "property object"

record bucket =
  start :: int
  end' :: int

record segment = bucket +
  segments :: "individualSegment list"

record AppInsightsMetricBody =
  value_segments :: "segment list"

record metricResult =
  result_id :: string
  body_value :: AppInsightsMetricBody

record PerformanceMetric =
  time :: int
  val :: jsvalue

type_synonym usages = "PerformanceMetric list object"

datatype error = TypeError

text \<open>
  \<^verbatim>\<open>
  private _getDateAvg(start: Date, end: Date): Date {
      return new Date((end.getTime() + start.getTime()) / 2);
  }
  \<close>
  The time value of a \<open>Date\<close> is a whole number of milliseconds: \<open>new Date(x)\<close>
  drops the fraction of \<open>x\<close>, rounding toward zero, which is what \<open>sdiv\<close> does.
\<close>

definition getDateAvg :: "int \<Rightarrow> int \<Rightarrow> int" where
  "getDateAvg start_time end_time = (end_time + start_time) sdiv 2"

text \<open>
  \<^verbatim>\<open>
  private _getAppInsightsMetricId(id: string) {
      return metrics[id].appInsightsMetricId;
  }
  \<close>
  Reading a field of \<open>undefined\<close> throws a \<open>TypeError\<close>. The reshaper calls this
  method with the three individual-device keys only, which the catalog holds.
\<close>

definition getAppInsightsMetricId :: "string \<Rightarrow> error + string" where
  "getAppInsightsMetricId ident =
     (case map_of metrics ident of
        None \<Rightarrow> Inl TypeError
      | Some metric \<Rightarrow> Inr (appInsightsMetricId metric))"

section \<open>Fan-out reshaping of an individual-device metric\<close>

text \<open>
  \<open>individualSegment[metricId].avg\<close>: a missing aggregate is \<open>undefined\<close>, whose field
  cannot be read; a string has no field \<open>avg\<close>.
\<close>

definition readAvg :: "string \<Rightarrow> individualSegment \<Rightarrow> error + jsvalue" where
  "readAvg metricKey individualSegment =
     (case map_of individualSegment metricKey of
        None \<Rightarrow> Inl TypeError
      | Some (Aggregate v) \<Rightarrow> Inr v
      | Some (Dimension s) \<Rightarrow> Inr Undefined)"

text \<open>
  \<open>individualSegment[deviceKey]\<close>, as the property key that \<open>in\<close> and the index
  expression make of it.
\<close>

definition readDeviceId :: "string \<Rightarrow> individualSegment \<Rightarrow> string" where
  "readDeviceId deviceKey individualSegment =
     (case map_of individualSegment deviceKey of
        None \<Rightarrow> ''undefined''
      | Some (Dimension s) \<Rightarrow> s
      | Some (Aggregate v) \<Rightarrow> ''[object Object]'')"

text \<open>
  \<^verbatim>\<open>
  if (!(deviceId in usages)) {
      usages[deviceId] = [];
  }
  usages[deviceId].push({ time, value });
  \<close>
  When \<open>deviceId\<close> names an inherited property, no array is created and the value
  found has no \<open>push\<close>: the call throws a \<open>TypeError\<close>.
\<close>

definition pushUsage :: "string \<Rightarrow> PerformanceMetric \<Rightarrow> usages \<Rightarrow> error + usages" where
  "pushUsage deviceId sample usages =
     (let usages1 = (if \<not> hasProperty deviceId usages then setProperty deviceId [] usages
                     else usages)
      in case map_of usages1 deviceId of
           None \<Rightarrow> Inl TypeError
         | Some series \<Rightarrow> Inr (AList.update deviceId (series @ [sample]) usages1))"

text \<open>
  \<^verbatim>\<open>
  private _processIndividualDeviceUsage(id: string, deviceKey: string, segments) {
      const usages: StringMap<PerformanceMetric[]> = {};
      for (const segment of segments) {
          const time = this._getDateAvg(new Date(segment.start), new Date(segment.end));
          for (const individualSegment of segment.segments) {
              const value = individualSegment[this._getAppInsightsMetricId(id)].avg;
              const deviceId = individualSegment[deviceKey];
              ...
          }
      }
      return usages;
  }
  \<close>
  The two loops thread \<open>usages\<close>; an exception ends both.
\<close>

fun processIndividualSegments ::
  "string \<Rightarrow> string \<Rightarrow> int \<Rightarrow> individualSegment list \<Rightarrow> usages \<Rightarrow> error + usages" where
  "processIndividualSegments ident deviceKey t [] usages = Inr usages"
| "processIndividualSegments ident deviceKey t (individualSegment # rest) usages =
     (case getAppInsightsMetricId ident of
        Inl e \<Rightarrow> Inl e
      | Inr metricKey \<Rightarrow>
          (case readAvg metricKey individualSegment of
             Inl e \<Rightarrow> Inl e
           | Inr v \<Rightarrow>
               (case pushUsage (readDeviceId deviceKey individualSegment)
                       \<lparr>time = t, val = v\<rparr> usages of
                  Inl e \<Rightarrow> Inl e
                | Inr usages1 \<Rightarrow> processIndividualSegments ident deviceKey t rest usages1)))"

fun processSegments ::
  "string \<Rightarrow> string \<Rightarrow> segment list \<Rightarrow> usages \<Rightarrow> error + usages" where
  "processSegments ident deviceKey [] usages = Inr usages"
| "processSegments ident deviceKey (seg # rest) usages =
     (let t = getDateAvg (start seg) (end' seg) in
      case processIndividualSegments ident deviceKey t (segments seg) usages of
        Inl e \<Rightarrow> Inl e
      | Inr usages1 \<Rightarrow> processSegments ident deviceKey rest usages1)"

definition processIndividualDeviceUsage ::
  "string \<Rightarrow> string \<Rightarrow> segment list \<Rightarrow> error + usages" where
  "processIndividualDeviceUsage ident deviceKey segs = processSegments ident deviceKey segs []"

section \<open>Dispatch of the reshaper\<close>

text \<open>
  \<open>AppInsightQueryResultProcessor\<close> is not among the sources: its method \<open>process\<close>
  is a parameter, called with the catalog entry of the key (\<open>None\<close> when the catalog
  has none) and the metric body.
  \<^verbatim>\<open>
  private _processSegmentedMetric<T>(metricId: string, segments: AppInsightsMetricBody): T {
      const metric = metrics[metricId];
      const processor = new AppInsightQueryResultProcessor(metric);
      return processor.process(segments);
  }
  \<close>
\<close>

definition processSegmentedMetric ::
  "(MetricDefinition option \<Rightarrow> AppInsightsMetricBody \<Rightarrow> error + 'r) \<Rightarrow> string
     \<Rightarrow> AppInsightsMetricBody \<Rightarrow> error + 'r" where
  "processSegmentedMetric process metricKey body =
     (let metric = map_of metrics metricKey in process metric body)"

text \<open>
  An entry of the report is a per-device dictionary or whatever the flat processor
  returns.
  \<^verbatim>\<open>
  switch (id) {
      case "individualCpuUsage":
          performances[id] = this._processIndividualDeviceUsage(id, "customDimensions/CPU #", segments);
          break;
      case "individualGpuUsage":
      case "individualGpuMemory":
          performances[id] = this._processIndividualDeviceUsage(id, "customDimensions/GPU #", segments);
          break;
      default:
          performances[id] = this._processSegmentedMetric(id, data);
  }
  \<close>
\<close>

datatype 'r performance = PerDevice usages | Flat 'r

definition processMetricResult ::
  "(MetricDefinition option \<Rightarrow> AppInsightsMetricBody \<Rightarrow> error + 'r) \<Rightarrow> metricResult
     \<Rightarrow> error + 'r performance" where
  "processMetricResult process metricResult =
     (let ident = result_id metricResult;
          body = body_value metricResult;
          segs = value_segments (body_value metricResult)
      in if ident = ''individualCpuUsage'' then
           (case processIndividualDeviceUsage ident ''customDimensions/CPU #'' segs of
              Inl e \<Rightarrow> Inl e | Inr u \<Rightarrow> Inr (PerDevice u))
         else if ident = ''individualGpuUsage'' \<or> ident = ''individualGpuMemory'' then
           (case processIndividualDeviceUsage ident ''customDimensions/GPU #'' segs of
              Inl e \<Rightarrow> Inl e | Inr u \<Rightarrow> Inr (PerDevice u))
         else
           (case processSegmentedMetric process ident body of
              Inl e \<Rightarrow> Inl e | Inr r \<Rightarrow> Inr (Flat r)))"

fun processMetricResults ::
  "(MetricDefinition option \<Rightarrow> AppInsightsMetricBody \<Rightarrow> error + 'r) \<Rightarrow> metricResult list
     \<Rightarrow> 'r performance object \<Rightarrow> error + 'r performance object" where
  "processMetricResults process [] performances = Inr performances"
| "processMetricResults process (metricResult # rest) performances =
     (case processMetricResult process metricResult of
        Inl e \<Rightarrow> Inl e
      | Inr p \<Rightarrow>
          processMetricResults process rest
            (setProperty (result_id metricResult) p performances))"

definition processMetrics ::
  "(MetricDefinition option \<Rightarrow> AppInsightsMetricBody \<Rightarrow> error + 'r) \<Rightarrow> metricResult list
     \<Rightarrow> error + 'r performance object" where
  "processMetrics process data = processMetricResults process data []"

section \<open>Flat series\<close>

text \<open>
  Modelled from the spec: the flat-series algorithm of
  \<open>AppInsightQueryResultProcessor.process\<close>, whose file is not among the sources. It
  yields one sample per bucket, in response order, at the bucket's midpoint, with the
  averaged value that a per-definition extraction draws from the bucket.
\<close>

definition flatSeries ::
  "('a bucket_scheme \<Rightarrow> jsvalue) \<Rightarrow> 'a bucket_scheme list \<Rightarrow> PerformanceMetric list" where
  "flatSeries extract buckets =
     map (\<lambda>b. \<lparr>time = getDateAvg (start b) (end' b), val = extract b\<rparr>) buckets"

text \<open>The bucket of the specification's example: \<open>{start, end, value}\<close>.\<close>

record flatBucket = bucket +
  bucket_value :: jsvalue

section \<open>The per-device series, as the specification words it\<close>

text \<open>
  The observations of a raw result: for each bucket in response order and each of its
  sub-aggregates in order, the device found under the device-dimension path, paired
  with the sample at the bucket's midpoint holding the average found under the
  upstream metric id.
\<close>

definition spec_observations ::
  "string \<Rightarrow> string \<Rightarrow> segment list \<Rightarrow> (string \<times> PerformanceMetric) list" where
  "spec_observations metricKey deviceKey segs =
     concat (map (\<lambda>seg. map (\<lambda>i. (readDeviceId deviceKey i,
                                    \<lparr>time = getDateAvg (start seg) (end' seg),
                                     val = (case map_of i metricKey of
                                              Some (Aggregate v) \<Rightarrow> v
                                            | _ \<Rightarrow> Undefined)\<rparr>))
                           (segments seg))
                 segs)"

text \<open>
  The per-device series of a list of observations: one key per device observed, in the
  order of first observation, each key holding the samples observed for that device, in
  order. A device has no sample for a bucket from which it is absent, and a device never
  observed has no key.
\<close>

definition spec_perDeviceSeries :: "(string \<times> PerformanceMetric) list \<Rightarrow> usages" where
  "spec_perDeviceSeries obs =
     map (\<lambda>d. (d, map snd (filter (\<lambda>ob. fst ob = d) obs)))
       (rev (remdups (rev (map fst obs))))"

text \<open>
  The same, as a relation between observations and a dictionary: the invariant of the
  two loops of the fan-out.
\<close>

definition represents :: "(string \<times> PerformanceMetric) list \<Rightarrow> usages \<Rightarrow> bool" where
  "represents obs usages \<longleftrightarrow>
     map fst usages = rev (remdups (rev (map fst obs)))
   \<and> (\<forall>d. map_of usages d =
           (if d \<in> fst ` set obs then Some (map snd (filter (\<lambda>ob. fst ob = d) obs))
            else None))"

text \<open>
  The midpoint of a bucket, as a whole number of milliseconds: the half of
  \<open>start + end\<close>, its fraction dropped (rounding toward zero).
\<close>

definition spec_truncatedMidpoint :: "int \<Rightarrow> int \<Rightarrow> int" where
  "spec_truncatedMidpoint s e =
     (if 0 \<le> s + e then (s + e) div 2 else - ((- (s + e)) div 2))"

text \<open>
  The times at which a device has samples: for each bucket in response order, the
  bucket's midpoint once for every sub-aggregate of the bucket that names the device.
\<close>

definition spec_deviceTimes :: "string \<Rightarrow> string \<Rightarrow> segment list \<Rightarrow> int list" where
  "spec_deviceTimes deviceKey d segs =
     concat (map (\<lambda>seg. map (\<lambda>i. spec_truncatedMidpoint (start seg) (end' seg))
                           (filter (\<lambda>i. readDeviceId deviceKey i = d) (segments seg)))
                 segs)"
section \<open>Properties of the interval calculator\<close>

lemma toString_examples:
  "toString 0 = ''0''" "toString 7 = ''7''" "toString 1440 = ''1440''" "toString (- 60) = ''-60''"
  by code_simp+

lemma roundUp_ceiling: "roundUpToMultipleOf10 n = \<lceil>(of_int n :: rat) / 10\<rceil> * 10"
proof -
  have "\<lceil>(of_int n :: rat) / of_int 10\<rceil> = - (- n div 10)" by (rule ceiling_divide_eq_div)
  then have c: "\<lceil>(of_int n :: rat) / 10\<rceil> = - (- n div 10)" by simp
  have split: "n div 10 * 10 = n - n mod 10" by (simp add: minus_mod_eq_div_mult)
  show ?thesis
  proof (cases "n mod 10 = 0")
    case True
    then have "- n div 10 = - (n div 10)" by (simp add: zdiv_zminus1_eq_if)
    with c split True show ?thesis by (simp add: roundUpToMultipleOf10_def)
  next
    case False
    then have "- n div 10 = - (n div 10) - 1" by (simp add: zdiv_zminus1_eq_if)
    with c have "\<lceil>(of_int n :: rat) / 10\<rceil> * 10 = n div 10 * 10 + 10" by simp
    with split False show ?thesis by (simp add: roundUpToMultipleOf10_def)
  qed
qed

lemma ceiling_ceiling_div10: "\<lceil>(of_int \<lceil>x\<rceil> :: rat) / 10\<rceil> = \<lceil>(x::rat) / 10\<rceil>"
proof (rule antisym)
  have "(of_int \<lceil>x\<rceil> :: rat) \<le> of_int (\<lceil>x / 10\<rceil> * 10)"
  proof -
    have "x / 10 \<le> of_int \<lceil>x / 10\<rceil>" by (rule le_of_int_ceiling)
    then have "x \<le> of_int (\<lceil>x / 10\<rceil> * 10)" by simp linarith
    then have "\<lceil>x\<rceil> \<le> \<lceil>x / 10\<rceil> * 10" by (simp only: ceiling_le_iff)
    then show ?thesis by (simp only: of_int_le_iff)
  qed
  then have "(of_int \<lceil>x\<rceil> :: rat) / 10 \<le> of_int \<lceil>x / 10\<rceil>" by simp
  then show "\<lceil>(of_int \<lceil>x\<rceil> :: rat) / 10\<rceil> \<le> \<lceil>x / 10\<rceil>" by (simp only: ceiling_le_iff)
  have "x \<le> of_int \<lceil>x\<rceil>" by (rule le_of_int_ceiling)
  then have "x / 10 \<le> (of_int \<lceil>x\<rceil> :: rat) / 10" by simp
  then show "\<lceil>x / 10\<rceil> \<le> \<lceil>(of_int \<lceil>x\<rceil> :: rat) / 10\<rceil>" by (rule ceiling_mono)
qed

lemma interval_eq_spec: "intervalInSeconds w = spec_intervalSeconds w"
  by (simp add: intervalInSeconds_def spec_intervalSeconds_def roundUp_ceiling ceiling_ceiling_div10)

lemma interval_multiple: "intervalInSeconds w mod 10 = 0"
  by (simp add: intervalInSeconds_def)

lemma interval_ge10: "0 < w \<Longrightarrow> 10 \<le> intervalInSeconds w"
proof -
  assume "0 < w"
  then have "0 < w / 1000 * 60 / 10" by simp
  then have "0 < \<lceil>w / 1000 * 60 / 10\<rceil>" by (simp only: zero_less_ceiling)
  then show ?thesis by (simp add: intervalInSeconds_def)
qed

lemma interval_upper: "w / 1000 * 60 \<le> of_int (intervalInSeconds w)"
proof -
  have "w / 1000 * 60 / 10 \<le> of_int \<lceil>w / 1000 * 60 / 10\<rceil>" by (rule le_of_int_ceiling)
  then have "w / 1000 * 60 \<le> of_int \<lceil>w / 1000 * 60 / 10\<rceil> * 10" by linarith
  then show ?thesis by (simp add: intervalInSeconds_def)
qed

lemma interval_least:
  assumes m: "m mod 10 = 0" and le: "w / 1000 * 60 \<le> of_int m"
  shows "intervalInSeconds w \<le> m"
proof -
  from m obtain k where k: "m = 10 * k" by auto
  from le have "w / 1000 * 60 / 10 \<le> of_int k" by (simp add: k)
  then have "\<lceil>w / 1000 * 60 / 10\<rceil> \<le> k" by (simp only: ceiling_le_iff)
  then show ?thesis by (simp add: intervalInSeconds_def k)
qed

text \<open>
  C9. The interval is monotonically non-decreasing in the window length: for
  \<open>0 < w1 \<le> w2\<close>, the interval of \<open>w1\<close> is at most the interval of \<open>w2\<close>.
\<close>

theorem intervalInSeconds_monotone:
  "0 < w1 \<and> w1 \<le> w2 \<longrightarrow> intervalInSeconds w1 \<le> intervalInSeconds w2"
proof
  assume "0 < w1 \<and> w1 \<le> w2"
  then have "w1 / 1000 * 60 / 10 \<le> w2 / 1000 * 60 / 10" by simp
  then have "\<lceil>w1 / 1000 * 60 / 10\<rceil> \<le> \<lceil>w2 / 1000 * 60 / 10\<rceil>" by (rule ceiling_mono)
  then show "intervalInSeconds w1 \<le> intervalInSeconds w2"
    by (simp add: intervalInSeconds_def)
qed

theorem intervalInSeconds_monotone_witness:
  "(0::rat) < 100 \<and> (100::rat) \<le> 1440 \<and> intervalInSeconds 100 \<le> intervalInSeconds 1440
   \<and> intervalInSeconds 100 = 10 \<and> intervalInSeconds 1440 = 90"
proof -
  have h: "(0::rat) < 100 \<and> (100::rat) \<le> 1440" by simp
  have a: "intervalInSeconds 100 = 10" by code_simp
  have b: "intervalInSeconds 1440 = 90" by code_simp
  from intervalInSeconds_monotone [of 100 1440] h
  have "intervalInSeconds 100 \<le> intervalInSeconds 1440" by blast
  with h a b show ?thesis by blast
qed

section \<open>Properties of the double-precision calculator\<close>

lemma bitlen_upper: "n < 2 ^ bitlen n"
proof (induction n rule: bitlen.induct)
  case (1 n)
  show ?case
  proof (cases "n = 0")
    case True
    then show ?thesis by (simp add: bitlen.simps)
  next
    case False
    with 1 have "n div 2 < 2 ^ bitlen (n div 2)" by simp
    then have "n < 2 * 2 ^ bitlen (n div 2)" by linarith
    with False show ?thesis by (simp add: bitlen.simps [of n])
  qed
qed

lemma bitlen_lower: "0 < n \<Longrightarrow> 2 ^ bitlen n \<le> 2 * n"
proof (induction n rule: bitlen.induct)
  case (1 n)
  show ?case
  proof (cases "n div 2 = 0")
    case True
    with 1(2) have "n = 1" by linarith
    then show ?thesis by (simp add: bitlen.simps [of "Suc 0"] bitlen.simps [of 0])
  next
    case False
    with 1 have "2 ^ bitlen (n div 2) \<le> 2 * (n div 2)" by simp
    then have "2 * 2 ^ bitlen (n div 2) \<le> 2 * n" by linarith
    with 1(2) show ?thesis by (simp add: bitlen.simps [of n])
  qed
qed

lemma bitlen_pos: "0 < n \<Longrightarrow> 0 < bitlen n"
  by (simp add: bitlen.simps [of n])

lemma ilog2_bounds_ge1:
  assumes "1 \<le> (x::rat)"
  shows "power_int 2 (ilog2 x) \<le> x" and "x < power_int 2 (ilog2 x + 1)"
proof -
  let ?n = "nat \<lfloor>x\<rfloor>"
  from assms have fl: "1 \<le> \<lfloor>x\<rfloor>" by simp
  then have n: "0 < ?n" by simp
  have e: "ilog2 x = int (bitlen ?n - 1)"
    using assms bitlen_pos [OF n] by (simp add: ilog2_def)
  have nx: "(of_nat ?n :: rat) \<le> x" using fl by simp
  have xn: "x < of_nat ?n + 1" using fl by simp linarith
  have "2 * 2 ^ (bitlen ?n - 1) = (2::nat) ^ bitlen ?n"
    using bitlen_pos [OF n] by (cases "bitlen ?n") simp_all
  with bitlen_lower [OF n] have "(2::nat) ^ (bitlen ?n - 1) \<le> ?n" by linarith
  then have "(of_nat (2 ^ (bitlen ?n - 1)) :: rat) \<le> of_nat ?n" by (simp only: of_nat_le_iff)
  then have "(2::rat) ^ (bitlen ?n - 1) \<le> of_nat ?n" by (simp only: of_nat_power of_nat_numeral)
  with nx have "(2::rat) ^ (bitlen ?n - 1) \<le> x" by linarith
  then show "power_int 2 (ilog2 x) \<le> x" by (simp only: e power_int_of_nat)
  have e1: "ilog2 x + 1 = int (bitlen ?n)" using bitlen_pos [OF n] by (simp add: e)
  from bitlen_upper [of ?n] have "?n + 1 \<le> 2 ^ bitlen ?n" by linarith
  then have "(of_nat (?n + 1) :: rat) \<le> of_nat (2 ^ bitlen ?n)" by (simp only: of_nat_le_iff)
  then have "(of_nat ?n :: rat) + 1 \<le> 2 ^ bitlen ?n"
    by (simp only: of_nat_power of_nat_numeral of_nat_add of_nat_1)
  with xn have "x < 2 ^ bitlen ?n" by linarith
  then show "x < power_int 2 (ilog2 x + 1)" by (simp only: e1 power_int_of_nat)
qed

lemma ilog2_bounds_lt1:
  assumes "0 < (x::rat)" and "x < 1"
  shows "power_int 2 (ilog2 x) \<le> x" and "x < power_int 2 (ilog2 x + 1)"
proof -
  let ?y = "1 / x"
  let ?N = "nat \<lceil>?y\<rceil>"
  let ?k = "bitlen (?N - 1)"
  from assms have y1: "1 < ?y" by simp
  then have c2: "2 \<le> \<lceil>?y\<rceil>" by linarith
  then have m: "0 < ?N - 1" by simp
  have e: "ilog2 x = - int ?k" using assms by (simp add: ilog2_def)
  have yN: "?y \<le> of_nat ?N" using c2 by simp
  have Ny: "(of_nat (?N - 1) :: rat) < ?y" using c2
    by (simp add: of_nat_diff) linarith
  from bitlen_upper [of "?N - 1"] m have "?N \<le> 2 ^ ?k" by linarith
  then have "(of_nat ?N :: rat) \<le> of_nat (2 ^ ?k)" by (simp only: of_nat_le_iff)
  then have "(of_nat ?N :: rat) \<le> 2 ^ ?k" by (simp only: of_nat_power of_nat_numeral)
  with yN have yk: "?y \<le> 2 ^ ?k" by linarith
  have p: "(0::rat) < 2 ^ ?k" by simp
  from yk assms(1) p have "1 / 2 ^ ?k \<le> x"
    by (simp add: field_simps)
  then show "power_int 2 (ilog2 x) \<le> x"
    by (simp add: e power_int_minus_divide)
  have kpos: "0 < ?k" by (rule bitlen_pos [OF m])
  have "2 * 2 ^ (?k - 1) = (2::nat) ^ ?k" using kpos by (cases ?k) simp_all
  with bitlen_lower [OF m] have "(2::nat) ^ (?k - 1) \<le> ?N - 1" by linarith
  then have "(of_nat (2 ^ (?k - 1)) :: rat) \<le> of_nat (?N - 1)" by (simp only: of_nat_le_iff)
  then have "(2::rat) ^ (?k - 1) \<le> of_nat (?N - 1)" by (simp only: of_nat_power of_nat_numeral)
  with Ny have ky: "2 ^ (?k - 1) < ?y" by linarith
  have p1: "(0::rat) < 2 ^ (?k - 1)" by simp
  from ky assms(1) p1 have "x < 1 / 2 ^ (?k - 1)" by (simp add: field_simps)
  moreover have "ilog2 x + 1 = - int (?k - 1)" using kpos by (simp add: e)
  ultimately show "x < power_int 2 (ilog2 x + 1)"
    by (simp add: power_int_minus_divide)
qed

lemma ilog2_bounds:
  assumes "0 < (x::rat)"
  shows "power_int 2 (ilog2 x) \<le> x" and "x < power_int 2 (ilog2 x + 1)"
  using assms ilog2_bounds_ge1 [of x] ilog2_bounds_lt1 [of x] by (cases "1 \<le> x"; simp)+

lemma roundHalfEven_error: "\<bar>of_int (roundHalfEven y) - y\<bar> \<le> 1 / 2"
proof -
  have "of_int \<lfloor>y\<rfloor> \<le> y" and "y < of_int \<lfloor>y\<rfloor> + 1" by linarith+
  then show ?thesis by (auto simp: roundHalfEven_def Let_def)
qed

lemma roundHalfEven_of_int: "roundHalfEven (of_int k) = k"
  by (simp add: roundHalfEven_def)

lemma ulp_pos: "0 < ulp x"
  unfolding ulp_def by (rule zero_less_power_int) simp

lemma round64_error_ulp: "\<bar>round64 x - x\<bar> \<le> ulp x / 2"
proof (cases "x = 0")
  case True
  then show ?thesis using ulp_pos [of 0] by (simp add: round64_def)
next
  case False
  have "\<bar>of_int (roundHalfEven (x / ulp x)) - x / ulp x\<bar> \<le> 1 / 2"
    by (rule roundHalfEven_error)
  then have "\<bar>of_int (roundHalfEven (x / ulp x)) - x / ulp x\<bar> * ulp x \<le> 1 / 2 * ulp x"
    using ulp_pos [of x] by (simp only: mult_le_cancel_right_pos)
  moreover have "\<bar>of_int (roundHalfEven (x / ulp x)) - x / ulp x\<bar> * ulp x
      = \<bar>of_int (roundHalfEven (x / ulp x)) * ulp x - x\<bar>"
  proof -
    have "(of_int (roundHalfEven (x / ulp x)) - x / ulp x) * ulp x
        = of_int (roundHalfEven (x / ulp x)) * ulp x - x"
      using ulp_pos [of x] by (simp add: left_diff_distrib)
    then have "\<bar>of_int (roundHalfEven (x / ulp x)) * ulp x - x\<bar>
        = \<bar>of_int (roundHalfEven (x / ulp x)) - x / ulp x\<bar> * \<bar>ulp x\<bar>"
      by (simp only: abs_mult [symmetric])
    then show ?thesis using ulp_pos [of x] by simp
  qed
  ultimately show ?thesis using False by (simp add: round64_def)
qed

lemma power2_less_imp_less:
  assumes "power_int (2::rat) m < power_int 2 n"
  shows "m < n"
proof (rule ccontr)
  assume "\<not> m < n"
  then have "n \<le> m" by simp
  then have "power_int (2::rat) n \<le> power_int 2 m" by (rule power_int_increasing) simp
  with assms show False by simp
qed

lemma ilog2_normal:
  assumes "power_int 2 (- 1022) \<le> \<bar>x\<bar>"
  shows "- 1022 \<le> ilog2 \<bar>x\<bar>"
proof -
  have "(0::rat) < power_int 2 (- 1022)" by (rule zero_less_power_int) simp
  with assms have pos: "0 < \<bar>x\<bar>" by linarith
  from ilog2_bounds(2) [OF pos] assms
  have "power_int (2::rat) (- 1022) < power_int 2 (ilog2 \<bar>x\<bar> + 1)" by linarith
  then have "- 1022 < ilog2 \<bar>x\<bar> + 1" by (rule power2_less_imp_less)
  then show ?thesis by simp
qed

lemma round64_relative:
  assumes "power_int 2 (- 1022) \<le> \<bar>x\<bar>"
  shows "\<bar>round64 x - x\<bar> \<le> \<bar>x\<bar> / 2 ^ 53"
proof -
  have "(0::rat) < power_int 2 (- 1022)" by (rule zero_less_power_int) simp
  with assms have pos: "0 < \<bar>x\<bar>" by linarith
  let ?e = "ilog2 \<bar>x\<bar>"
  from ilog2_normal [OF assms] have u: "ulp x = power_int 2 (?e - 52)"
    by (simp add: ulp_def max_def)
  have "power_int (2::rat) (?e - 52) = power_int 2 ?e / power_int 2 52"
    by (rule power_int_diff) simp
  then have "ulp x / 2 = power_int 2 ?e / 2 ^ 53" by (simp add: u)
  also have "\<dots> \<le> \<bar>x\<bar> / 2 ^ 53"
    using ilog2_bounds(1) [OF pos] by (simp add: divide_right_mono)
  finally show ?thesis using round64_error_ulp [of x] by linarith
qed

lemma round64_exact:
  assumes k: "k \<noteq> 0" "\<bar>k\<bar> < 2 ^ 53" and j: "- 1074 \<le> j"
  shows "round64 (of_int k * power_int 2 j) = of_int k * power_int 2 j"
proof -
  let ?x = "of_int k * power_int (2::rat) j"
  have pj: "(0::rat) < power_int 2 j" by (rule zero_less_power_int) simp
  have ax: "\<bar>?x\<bar> = of_int \<bar>k\<bar> * power_int 2 j" using pj by (simp add: abs_mult)
  have pos: "0 < \<bar>?x\<bar>" using k(1) pj by (simp add: ax)
  have x0: "?x \<noteq> 0" using pos by simp
  let ?e = "ilog2 \<bar>?x\<bar>"
  let ?E = "max ?e (- 1022)"
  from k(2) have "(of_int \<bar>k\<bar> :: rat) < of_int (2 ^ 53)" by (simp only: of_int_less_iff)
  then have "(of_int \<bar>k\<bar> :: rat) * power_int 2 j < 2 ^ 53 * power_int 2 j"
    using pj by simp
  also have "\<dots> = power_int 2 (53 + j)" by (simp add: power_int_add)
  finally have "\<bar>?x\<bar> < power_int 2 (53 + j)" by (simp only: ax)
  with ilog2_bounds(1) [OF pos] have "power_int (2::rat) ?e < power_int 2 (53 + j)" by linarith
  then have "?e < 53 + j" by (rule power2_less_imp_less)
  with j have E: "?E - 52 \<le> j" by simp
  define d where "d = nat (j - (?E - 52))"
  have jd: "j = (?E - 52) + int d" using E by (simp add: d_def)
  have u: "ulp ?x = power_int 2 (?E - 52)" by (simp add: ulp_def)
  have "power_int (2::rat) j = power_int 2 (?E - 52) * power_int 2 (int d)"
    by (subst jd) (simp add: power_int_add)
  then have xu: "?x = of_int (k * 2 ^ d) * ulp ?x" by (simp add: u mult.commute)
  have up: "0 < ulp ?x" by (rule ulp_pos)
  from xu have "?x / ulp ?x = of_int (k * 2 ^ d)" using up by (simp add: field_simps)
  then have "roundHalfEven (?x / ulp ?x) = k * 2 ^ d" by (simp only: roundHalfEven_of_int)
  then have "round64 ?x = of_int (k * 2 ^ d) * ulp ?x" using x0 by (simp add: round64_def)
  from this xu [symmetric] show ?thesis by (rule trans)
qed

lemma round64_of_int:
  assumes "\<bar>k\<bar> < 2 ^ 53"
  shows "round64 (of_int k) = of_int k"
proof (cases "k = 0")
  case True
  then show ?thesis by (simp add: round64_def)
next
  case False
  from round64_exact [OF False assms, of 0] show ?thesis by simp
qed

lemma round64_half:
  assumes "\<bar>k\<bar> < 2 ^ 53"
  shows "round64 (of_int k / 2) = of_int k / 2"
proof (cases "k = 0")
  case True
  then show ?thesis by (simp add: round64_def)
next
  case False
  from round64_exact [OF False assms, of "- 1"] show ?thesis by simp
qed

lemma tiny_le: "power_int (2::rat) (- 1022) \<le> 1 / 1024"
proof -
  have "power_int (2::rat) (- 1022) \<le> power_int 2 (- 10)"
    by (rule power_int_increasing) simp_all
  then show ?thesis by simp
qed

lemma round64_relative_pos:
  assumes "1 / 1024 \<le> (x::rat)"
  shows "x - x / 2 ^ 53 \<le> round64 x" and "round64 x \<le> x + x / 2 ^ 53"
proof -
  from assms tiny_le have "power_int 2 (- 1022) \<le> \<bar>x\<bar>" by linarith
  from round64_relative [OF this] assms
  show "x - x / 2 ^ 53 \<le> round64 x" and "round64 x \<le> x + x / 2 ^ 53" by linarith+
qed

lemma interval64_multiple_of_500:
  assumes "0 < m" and "m \<le> 2000000000"
  shows "intervalInSeconds64 (of_int (500 * m)) = 30 * m"
proof -
  have b1: "\<bar>m\<bar> < 2 ^ 53" and b2: "\<bar>30 * m\<bar> < 2 ^ 53" and b3: "\<bar>3 * m\<bar> < 2 ^ 53"
    using assms by simp_all
  have s1: "round64 (of_int (500 * m) / 1000) = of_int m / 2"
    using round64_half [OF b1] by simp
  have s2: "round64 (of_int m / 2 * 60) = of_int (30 * m)"
    using round64_of_int [OF b2] by simp
  have s3: "round64 (of_int (30 * m) / 10) = of_int (3 * m)"
    using round64_of_int [OF b3] by simp
  have s4: "round64 (of_int (3 * m) * 10) = of_int (30 * m)"
    using round64_of_int [OF b2] by simp
  show ?thesis
    by (simp only: intervalInSeconds64_def Let_def s1 s2 s3 ceiling_of_int s4 floor_of_int)
qed

lemma not_500_dvd:
  assumes "\<not> 500 dvd (w::int)"
  shows "(3 * w) mod 500 \<noteq> 0"
proof
  assume "(3 * w) mod 500 = 0"
  then have "500 dvd 3 * w" by (simp add: dvd_eq_mod_eq_0)
  then have "500 dvd 167 * (3 * w)" by (rule dvd_mult)
  moreover have "167 * (3 * w) = w + 500 * w" by simp
  ultimately have "500 dvd w + 500 * w" by simp
  then have "500 dvd w" using dvd_add_left_iff [of 500 "500 * w" w] by simp
  with assms show False by simp
qed

lemma small_error:
  assumes "0 \<le> (y::rat)" and "y \<le> 70000000000"
  shows "y / 2 ^ 53 \<le> 1 / 100000"
  using assms by simp

lemma interval64_other:
  assumes w: "0 < w" "w \<le> 1000000000000" and nd: "\<not> 500 dvd w"
  shows "intervalInSeconds64 (of_int w) = ((3 * w) div 500 + 1) * 10"
proof -
  define q where "q = (3 * w) div 500"
  define r where "r = (3 * w) mod 500"
  define x :: rat where "x = of_int w / 1000"
  define a where "a = round64 x"
  define b where "b = round64 (a * 60)"
  define c where "c = round64 (b / 10)"
  have "r \<noteq> 0" using not_500_dvd [OF nd] by (simp add: r_def)
  moreover have "0 \<le> r" "r < 500" by (simp_all add: r_def)
  ultimately have r: "1 \<le> r" "r \<le> 499" by linarith+
  have "3 * w = 500 * q + r" by (simp add: q_def r_def)
  then have "(of_int (3 * w) :: rat) = of_int (500 * q + r)" by (simp only:)
  then have xq: "x * 6 = of_int q + of_int r / 500" by (simp add: x_def)
  have rr: "(1::rat) \<le> of_int r" "(of_int r :: rat) \<le> 499" using r by simp_all
  have wr: "(1::rat) \<le> of_int w" "(of_int w :: rat) \<le> 1000000000000" using w by simp_all
  have x1: "1 / 1000 \<le> x" "x \<le> 1000000000" using wr by (simp_all add: x_def)
  have q0: "0 \<le> q" using w by (simp add: q_def)
  have xn: "1 / 1024 \<le> x" using x1 by linarith
  note ea = round64_relative_pos [OF xn, folded a_def]
  have ex: "x / 2 ^ 53 \<le> 1 / 100000" using x1 by (intro small_error) linarith+
  have a1: "x - 1 / 100000 \<le> a" "a \<le> x + 1 / 100000" using ea ex by linarith+
  have an: "1 / 1024 \<le> a * 60" using a1 x1 by linarith
  note eb = round64_relative_pos [OF an, folded b_def]
  have ey: "a * 60 / 2 ^ 53 \<le> 1 / 100000" using a1 x1 by (intro small_error) linarith+
  have b1: "a * 60 - 1 / 100000 \<le> b" "b \<le> a * 60 + 1 / 100000" using eb ey by linarith+
  have bn: "1 / 1024 \<le> b / 10" using b1 a1 x1 by linarith
  note ec = round64_relative_pos [OF bn, folded c_def]
  have ez: "b / 10 / 2 ^ 53 \<le> 1 / 100000" using b1 a1 x1 by (intro small_error) linarith+
  have c1: "b / 10 - 1 / 100000 \<le> c" "c \<le> b / 10 + 1 / 100000" using ec ez by linarith+
  have lo: "of_int q < c" using a1 b1 c1 xq rr by linarith
  have "c \<le> of_int q + 1" using a1 b1 c1 xq rr by linarith
  then have hi: "c \<le> of_int (q + 1)" by simp
  from lo hi have ce: "\<lceil>c\<rceil> = q + 1" by (simp add: ceiling_unique)
  have "q \<le> 6000000000" using w by (simp add: q_def)
  with q0 have b4: "\<bar>(q + 1) * 10\<bar> < 2 ^ 53" by simp
  have s4: "round64 (of_int (q + 1) * 10) = of_int ((q + 1) * 10)"
    using round64_of_int [OF b4] by simp
  have "intervalInSeconds64 (of_int w) = \<lfloor>round64 (of_int \<lceil>c\<rceil> * 10)\<rfloor>"
    by (simp only: intervalInSeconds64_def Let_def c_def b_def a_def x_def)
  then have "intervalInSeconds64 (of_int w) = (q + 1) * 10"
    by (simp only: ce s4 floor_of_int)
  then show ?thesis by (simp only: q_def)
qed

lemma interval64_agrees:
  assumes "0 < w" and "w \<le> 1000000000000"
  shows "intervalInSeconds64 (of_int w) = intervalInSeconds (of_int w)"
proof (cases "500 dvd w")
  case True
  then obtain m where m: "w = 500 * m" by (rule dvdE)
  with assms have "0 < m" and "m \<le> 2000000000" by simp_all
  from interval64_multiple_of_500 [OF this]
  have "intervalInSeconds64 (of_int w) = 30 * m" by (simp only: m)
  moreover have "(of_int w :: rat) / 1000 * 60 / 10 = of_int (3 * m)" by (simp add: m)
  then have "intervalInSeconds (of_int w) = 30 * m"
    by (simp only: intervalInSeconds_def Let_def ceiling_of_int)
  ultimately show ?thesis by simp
next
  case False
  define q where "q = (3 * w) div 500"
  define r where "r = (3 * w) mod 500"
  have "r \<noteq> 0" using not_500_dvd [OF False] by (simp add: r_def)
  moreover have "0 \<le> r" "r < 500" by (simp_all add: r_def)
  ultimately have r: "1 \<le> r" "r \<le> 499" by linarith+
  have "3 * w = 500 * q + r" by (simp add: q_def r_def)
  then have "(of_int (3 * w) :: rat) = of_int (500 * q + r)" by (simp only:)
  then have xq: "(of_int w :: rat) / 1000 * 60 / 10 = of_int q + of_int r / 500" by simp
  have rr: "(1::rat) \<le> of_int r" "(of_int r :: rat) \<le> 499" using r by simp_all
  have "of_int q < (of_int w :: rat) / 1000 * 60 / 10" using xq rr by linarith
  moreover have "(of_int w :: rat) / 1000 * 60 / 10 \<le> of_int (q + 1)" using xq rr by simp
  ultimately have "\<lceil>(of_int w :: rat) / 1000 * 60 / 10\<rceil> = q + 1" by (simp add: ceiling_unique)
  then have "intervalInSeconds (of_int w) = (q + 1) * 10"
    by (simp only: intervalInSeconds_def Let_def)
  with interval64_other [OF assms False] show ?thesis by (simp only: q_def)
qed

lemma interval64_zero: "intervalInSeconds64 0 = 0"
  by (simp add: intervalInSeconds64_def round64_def)

lemma power2_le_imp_le:
  assumes "power_int (2::rat) m \<le> power_int 2 n"
  shows "m \<le> n"
proof (rule ccontr)
  assume "\<not> m \<le> n"
  then have "n < m" by simp
  then have "power_int (2::rat) n < power_int 2 m" by (rule power_int_strict_increasing) simp
  with assms show False by simp
qed

lemma round64_underflow:
  assumes "0 < x" and "x \<le> power_int 2 (- 1075)"
  shows "round64 x = 0"
proof -
  have ax: "\<bar>x\<bar> = x" using assms(1) by simp
  from ilog2_bounds(1) [OF assms(1)] assms(2)
  have "power_int (2::rat) (ilog2 x) \<le> power_int 2 (- 1075)" by linarith
  then have "ilog2 x \<le> - 1075" by (rule power2_le_imp_le)
  then have u: "ulp x = power_int 2 (- 1074)" by (simp add: ulp_def ax max_def)
  have "power_int (2::rat) (- 1075) = power_int 2 (- 1074) / 2"
    using power_int_diff [of "2::rat" "- 1074" 1] by simp
  with assms(2) have "x \<le> ulp x / 2" by (simp only: u)
  define t where "t = x / ulp x"
  from \<open>x \<le> ulp x / 2\<close> have y: "t \<le> 1 / 2"
    using ulp_pos [of x] by (simp add: t_def field_simps)
  have y0: "0 < t" using assms(1) ulp_pos [of x] by (simp add: t_def)
  from y y0 have fl: "\<lfloor>t\<rfloor> = 0" by (simp add: floor_eq_iff)
  have "roundHalfEven t = 0" using y by (simp add: roundHalfEven_def fl)
  then show ?thesis by (simp add: round64_def t_def)
qed

lemma interval64_underflow: "intervalInSeconds64 (1 / 2 ^ 1074) = 0"
proof -
  have p: "(1::rat) / 2 ^ 1074 = power_int 2 (- 1074)" by (simp add: power_int_minus_divide)
  have "power_int (2::rat) (- 1075) = power_int 2 (- 1074) / 2"
    using power_int_diff [of "2::rat" "- 1074" 1] by simp
  moreover have "(0::rat) < power_int 2 (- 1074)" by (rule zero_less_power_int) simp
  ultimately have "0 < power_int (2::rat) (- 1074) / 1000"
    and "power_int (2::rat) (- 1074) / 1000 \<le> power_int 2 (- 1075)" by simp_all
  from round64_underflow [OF this] have "round64 (1 / 2 ^ 1074 / 1000) = 0" by (simp only: p)
  then show ?thesis by (simp add: intervalInSeconds64_def round64_def)
qed

lemma smallest_double_exact: "round64 (1 / 2 ^ 1074) = 1 / 2 ^ 1074"
  using round64_exact [of 1 "- 1074"] by (simp add: power_int_minus_divide)

lemma computeInterval64_agrees:
  assumes "0 < w" and "w \<le> 1000000000000"
  shows "computeInterval64 (of_int w) = computeInterval (of_int w)"
  by (simp only: computeInterval64_def computeInterval_def interval64_agrees [OF assms])

lemma whole_minutes_exact:
  assumes "0 < w" and "w \<le> 1000000000000"
  shows "round64 (of_int w) = of_int w"
proof -
  from assms have "\<bar>w\<bar> < 2 ^ 53" by simp
  then show ?thesis by (rule round64_of_int)
qed

lemma counterexample_window:
  "round64 (7330077518506667 / 8796093022208) = 7330077518506667 / 8796093022208"
  "intervalInSeconds64 (7330077518506667 / 8796093022208) = 50"
  "computeInterval64 (7330077518506667 / 8796093022208) = ''PT50S''"
  "roundUpToMultipleOf10 \<lceil>(7330077518506667 / 8796093022208 :: rat) / 1000 * 60\<rceil> = 60"
  by code_simp+

text \<open>
  C1, as amended. For every window of a whole number of minutes \<open>w\<close> with
  \<open>0 < w \<le> 10^12\<close> (such a \<open>w\<close> is a double), the interval calculator, computing in
  double precision, returns \<open>PT<s>S\<close> where \<open>s\<close> is the smallest multiple of 10 that is
  at least \<open>w / 1000 * 60\<close>, which is \<open>roundUpToMultipleOf10 (ceil (w / 1000 * 60))\<close>;
  so \<open>s mod 10 = 0\<close> and \<open>s \<ge> 10\<close>.
\<close>
theorem computeInterval64_whole_minutes:
  assumes "0 < w" and "w \<le> 1000000000000"
  shows "round64 (of_int w) = of_int w
   \<and> computeInterval64 (of_int w) = ''PT'' @ toString (intervalInSeconds64 (of_int w)) @ ''S''
   \<and> intervalInSeconds64 (of_int w) = roundUpToMultipleOf10 \<lceil>(of_int w :: rat) / 1000 * 60\<rceil>
   \<and> intervalInSeconds64 (of_int w) mod 10 = 0
   \<and> (of_int w :: rat) / 1000 * 60 \<le> of_int (intervalInSeconds64 (of_int w))
   \<and> (\<forall>m. m mod 10 = 0 \<and> (of_int w :: rat) / 1000 * 60 \<le> of_int m
          \<longrightarrow> intervalInSeconds64 (of_int w) \<le> m)
   \<and> 10 \<le> intervalInSeconds64 (of_int w)"
proof -
  let ?w = "of_int w :: rat"
  note eq = interval64_agrees [OF assms]
  from assms(1) have pos: "0 < ?w" by simp
  have c0: "round64 ?w = ?w" by (rule whole_minutes_exact [OF assms])
  have c1: "computeInterval64 ?w = ''PT'' @ toString (intervalInSeconds64 ?w) @ ''S''"
    by (simp only: computeInterval64_def)
  have c2: "intervalInSeconds64 ?w = roundUpToMultipleOf10 \<lceil>?w / 1000 * 60\<rceil>"
    using interval_eq_spec [of ?w] by (simp only: eq spec_intervalSeconds_def Let_def)
  have c3: "intervalInSeconds64 ?w mod 10 = 0" by (simp only: eq interval_multiple)
  have c4: "?w / 1000 * 60 \<le> of_int (intervalInSeconds64 ?w)"
    by (simp only: eq interval_upper)
  have c5: "\<forall>m. m mod 10 = 0 \<and> ?w / 1000 * 60 \<le> of_int m \<longrightarrow> intervalInSeconds64 ?w \<le> m"
  proof (intro allI impI)
    fix m :: int
    assume m: "m mod 10 = 0 \<and> ?w / 1000 * 60 \<le> of_int m"
    from interval_least [OF conjunct1 [OF m] conjunct2 [OF m]]
    show "intervalInSeconds64 ?w \<le> m" by (simp only: eq)
  qed
  have c6: "10 \<le> intervalInSeconds64 ?w" using interval_ge10 [OF pos] by (simp only: eq)
  from c0 c1 c2 c3 c4 c5 c6 show ?thesis by (intro conjI)
qed

theorem computeInterval64_whole_minutes_witness:
  "(0::int) < 100 \<and> (100::int) \<le> 1000000000000
   \<and> round64 (of_int 100) = of_int 100
   \<and> computeInterval64 (of_int 100) = ''PT10S'' \<and> intervalInSeconds64 (of_int 100) = 10
   \<and> intervalInSeconds64 (of_int 100) mod 10 = 0 \<and> 10 \<le> intervalInSeconds64 (of_int 100)
   \<and> (20::int) mod 10 = 0 \<and> (of_int 100 :: rat) / 1000 * 60 \<le> of_int 20
   \<and> intervalInSeconds64 (of_int 100) \<le> 20"
proof -
  have h1: "(0::int) < 100" by simp
  have h2: "(100::int) \<le> 1000000000000" by simp
  have a: "intervalInSeconds64 (of_int 100) = 10" by code_simp
  have b: "computeInterval64 (of_int 100) = ''PT10S''" by code_simp
  have m: "(20::int) mod 10 = 0 \<and> (of_int 100 :: rat) / 1000 * 60 \<le> of_int 20" by simp
  note t = computeInterval64_whole_minutes [OF h1 h2]
  have c0: "round64 (of_int 100) = of_int 100" by (rule t [THEN conjunct1])
  have c3: "intervalInSeconds64 (of_int 100) mod 10 = 0"
    by (rule t [THEN conjunct2, THEN conjunct2, THEN conjunct2, THEN conjunct1])
  have c5: "intervalInSeconds64 (of_int 100) \<le> 20"
    by (rule t [THEN conjunct2, THEN conjunct2, THEN conjunct2, THEN conjunct2, THEN conjunct2,
          THEN conjunct1, THEN spec, THEN mp, OF m])
  have c6: "10 \<le> intervalInSeconds64 (of_int 100)"
    by (rule t [THEN conjunct2, THEN conjunct2, THEN conjunct2, THEN conjunct2, THEN conjunct2,
          THEN conjunct2])
  from h1 h2 a b m c0 c3 c5 c6 show ?thesis by blast
qed

text \<open>
  C1 as stated fails for windows that are no whole minutes. For the double
  \<open>833.3333333333334\<close>, which is \<open>7330077518506667 / 2^43\<close>, the product of the
  rounded quotient with 60 is rounded to 50, and the interval is 50 seconds: less than
  \<open>w / 1000 * 60\<close>, and not \<open>roundUpToMultipleOf10 (ceil (w / 1000 * 60))\<close>, which is
  60. For the smallest positive double, \<open>2^(-1074)\<close>, the quotient by 1000 is rounded
  to zero, and the interval is 0.
\<close>
theorem computeInterval64_fractional_window_counterexample:
  "round64 (7330077518506667 / 8796093022208) = 7330077518506667 / 8796093022208
   \<and> (0::rat) < 7330077518506667 / 8796093022208
   \<and> computeInterval64 (7330077518506667 / 8796093022208) = ''PT50S''
   \<and> intervalInSeconds64 (7330077518506667 / 8796093022208) = 50
   \<and> (50::rat) < 7330077518506667 / 8796093022208 / 1000 * 60
   \<and> roundUpToMultipleOf10 \<lceil>(7330077518506667 / 8796093022208 :: rat) / 1000 * 60\<rceil> = 60
   \<and> round64 (1 / 2 ^ 1074) = 1 / 2 ^ 1074
   \<and> (0::rat) < 1 / 2 ^ 1074
   \<and> intervalInSeconds64 (1 / 2 ^ 1074) = 0"
proof -
  have p: "(0::rat) < 7330077518506667 / 8796093022208" by simp
  have l: "(50::rat) < 7330077518506667 / 8796093022208 / 1000 * 60" by simp
  have q: "(0::rat) < 1 / 2 ^ 1074" by simp
  from counterexample_window p l smallest_double_exact q interval64_underflow
  show ?thesis by (intro conjI)
qed

section \<open>Properties of the query builder\<close>

lemma buildQuery_ids: "map id' (buildQuery toOData poolId nodeId w) = map fst metrics"
  by (simp add: buildQuery_def comp_def case_prod_beta)

lemma buildQuery_definitions:
  "map (\<lambda>d. \<lparr>appInsightsMetricId = metricId (parameters d), segment = segment' (parameters d)\<rparr>)
     (buildQuery toOData poolId nodeId w) = map snd metrics"
  by (simp add: buildQuery_def comp_def case_prod_beta)

lemma buildQuery_fields:
  assumes "d \<in> set (buildQuery toOData poolId nodeId w)"
  shows "top' (parameters d) = 1000" and "aggregation (parameters d) = ''avg''"
    and "timespan (parameters d) = ''PT'' @ toString w @ ''M''"
    and "interval (parameters d) = computeInterval (of_int w)"
    and "filter' (parameters d) = toOData (buildFilter poolId nodeId)"
  using assms by (auto simp: buildQuery_def)

lemma interval_100: "computeInterval (of_int 100) = ''PT10S''"
  by code_simp

lemma timespan_100: "''PT'' @ toString 100 @ ''M'' = ''PT100M''"
  by code_simp

lemma interval_nonpos: "w \<le> 0 \<Longrightarrow> intervalInSeconds w \<le> 0"
proof -
  assume "w \<le> 0"
  then have "w / 1000 * 60 / 10 \<le> of_int 0" by simp
  then have "\<lceil>w / 1000 * 60 / 10\<rceil> \<le> 0" by (simp only: ceiling_le_iff)
  then show ?thesis by (simp add: intervalInSeconds_def)
qed

text \<open>
  C3. For every pool id, optional node id and window length, the query builder returns
  exactly one descriptor per catalog entry, in catalog order, each with the catalog's
  upstream metric id and segment, \<open>top = 1000\<close>, \<open>aggregation = "avg"\<close>, the
  time span \<open>PT<minutes>M\<close> and the interval \<open>PT<seconds>S\<close> of the interval
  calculator; \<open>buildPoolQuery("pool1", 100)\<close> yields the interval \<open>PT10S\<close> and
  the time span \<open>PT100M\<close>.
\<close>

theorem buildQuery_one_descriptor_per_catalog_entry:
  "map id' (buildQuery toOData poolId nodeId w) = map fst metrics
   \<and> length (buildQuery toOData poolId nodeId w) = length metrics
   \<and> map (\<lambda>d. \<lparr>appInsightsMetricId = metricId (parameters d), segment = segment' (parameters d)\<rparr>)
        (buildQuery toOData poolId nodeId w) = map snd metrics
   \<and> (\<forall>d \<in> set (buildQuery toOData poolId nodeId w).
         top' (parameters d) = 1000
       \<and> aggregation (parameters d) = ''avg''
       \<and> timespan (parameters d) = ''PT'' @ toString w @ ''M''
       \<and> interval (parameters d) = ''PT'' @ toString (intervalInSeconds (of_int w)) @ ''S'')
   \<and> (\<forall>d \<in> set (buildPoolQuery toOData ''pool1'' 100).
         interval (parameters d) = ''PT10S'' \<and> timespan (parameters d) = ''PT100M'')"
proof (intro conjI ballI)
  show "map id' (buildQuery toOData poolId nodeId w) = map fst metrics"
    by (rule buildQuery_ids)
  then show "length (buildQuery toOData poolId nodeId w) = length metrics"
    by (metis length_map)
  show "map (\<lambda>d. \<lparr>appInsightsMetricId = metricId (parameters d), segment = segment' (parameters d)\<rparr>)
        (buildQuery toOData poolId nodeId w) = map snd metrics"
    by (rule buildQuery_definitions)
next
  fix d assume d: "d \<in> set (buildQuery toOData poolId nodeId w)"
  show "top' (parameters d) = 1000" by (rule buildQuery_fields(1) [OF d])
  show "aggregation (parameters d) = ''avg''" by (rule buildQuery_fields(2) [OF d])
  show "timespan (parameters d) = ''PT'' @ toString w @ ''M''" by (rule buildQuery_fields(3) [OF d])
  show "interval (parameters d) = ''PT'' @ toString (intervalInSeconds (of_int w)) @ ''S''"
    using buildQuery_fields(4) [OF d] by (simp only: computeInterval_def)
next
  fix d assume "d \<in> set (buildPoolQuery toOData ''pool1'' 100)"
  then have d: "d \<in> set (buildQuery toOData ''pool1'' None 100)"
    by (simp only: buildPoolQuery_def)
  show "interval (parameters d) = ''PT10S''"
    using buildQuery_fields(4) [OF d] interval_100 by simp
  show "timespan (parameters d) = ''PT100M''"
    using buildQuery_fields(3) [OF d] timespan_100 by simp
qed

lemma cpuUsage_first:
  "\<lparr>id' = ''cpuUsage'',
    parameters = \<lparr>aggregation = ''avg'', metricId = ''customMetrics/Cpu usage'',
      filter' = PropEq ''cloud/roleName'' ''pool1'', interval = ''PT10S'', timespan = ''PT100M'',
      segment' = ''cloud/roleInstance'', top' = 1000\<rparr>\<rparr>
   \<in> set (buildPoolQuery id ''pool1'' 100)"
  by code_simp

theorem buildQuery_one_descriptor_per_catalog_entry_witness:
  "\<lparr>id' = ''cpuUsage'',
    parameters = \<lparr>aggregation = ''avg'', metricId = ''customMetrics/Cpu usage'',
      filter' = PropEq ''cloud/roleName'' ''pool1'', interval = ''PT10S'', timespan = ''PT100M'',
      segment' = ''cloud/roleInstance'', top' = 1000\<rparr>\<rparr>
   \<in> set (buildPoolQuery id ''pool1'' 100)
   \<and> length (buildQuery id ''pool1'' None 100) = 14
   \<and> map id' (buildQuery id ''pool1'' None 100) =
       [''cpuUsage'', ''individualCpuUsage'', ''gpuUsage'', ''individualGpuUsage'', ''gpuMemory'',
        ''individualGpuMemory'', ''memoryAvailable'', ''memoryUsed'', ''diskRead'', ''diskWrite'',
        ''diskUsed'', ''diskFree'', ''networkRead'', ''networkWrite'']"
proof -
  note t = buildQuery_one_descriptor_per_catalog_entry [of id "''pool1''" None 100]
  have m: "map fst metrics =
       [''cpuUsage'', ''individualCpuUsage'', ''gpuUsage'', ''individualGpuUsage'', ''gpuMemory'',
        ''individualGpuMemory'', ''memoryAvailable'', ''memoryUsed'', ''diskRead'', ''diskWrite'',
        ''diskUsed'', ''diskFree'', ''networkRead'', ''networkWrite'']"
    by (simp add: metrics_def)
  have l: "length metrics = 14" by (simp add: metrics_def)
  from t have "map id' (buildQuery id ''pool1'' None 100) = map fst metrics"
    and "length (buildQuery id ''pool1'' None 100) = length metrics" by blast+
  with m l cpuUsage_first show ?thesis by simp
qed

text \<open>
  C10. With the empty string as node id the node query is the pool query: the filter is
  the pool predicate alone, and the role-instance predicate is added exactly when the
  node id is a non-empty string.
\<close>

theorem buildNodeQuery_empty_node_id:
  "buildNodeQuery toOData poolId '''' w = buildPoolQuery toOData poolId w
   \<and> buildFilter poolId (Some '''') = buildFilter poolId None
   \<and> buildFilter poolId None = PropEq ''cloud/roleName'' poolId
   \<and> ((buildFilter poolId nodeId =
          And (PropEq ''cloud/roleName'' poolId) (PropEq ''cloud/roleInstance'' n))
        = (nodeId = Some n \<and> n \<noteq> ''''))"
  by (auto simp: buildNodeQuery_def buildPoolQuery_def buildQuery_def buildFilter_def truthy_def
      Let_def split: option.splits if_splits)

text \<open>
  C2, as amended. A window length \<open>\<le> 0\<close> raises nothing: the builder returns its
  usual batch, one descriptor per catalog entry, with the time span \<open>PT<minutes>M\<close>
  and an interval \<open>PT<seconds>S\<close> whose seconds are a multiple of 10 that is
  \<open>\<le> 0\<close> (\<open>PT0S\<close> for the window 0).
\<close>

theorem buildQuery_non_positive_window:
  "w \<le> 0 \<longrightarrow>
     map id' (buildQuery toOData poolId nodeId w) = map fst metrics
   \<and> length (buildQuery toOData poolId nodeId w) = length metrics
   \<and> (\<forall>d \<in> set (buildQuery toOData poolId nodeId w).
         timespan (parameters d) = ''PT'' @ toString w @ ''M''
       \<and> interval (parameters d) = ''PT'' @ toString (intervalInSeconds (of_int w)) @ ''S'')
   \<and> intervalInSeconds (of_int w) \<le> 0
   \<and> intervalInSeconds (of_int w) mod 10 = 0"
proof (intro impI conjI ballI)
  show "map id' (buildQuery toOData poolId nodeId w) = map fst metrics"
    by (rule buildQuery_ids)
  then show "length (buildQuery toOData poolId nodeId w) = length metrics"
    by (metis length_map)
  show "intervalInSeconds (of_int w) mod 10 = 0" by (simp add: intervalInSeconds_def)
next
  assume "w \<le> 0"
  then have "(of_int w :: rat) \<le> 0" by simp
  then show "intervalInSeconds (of_int w) \<le> 0" by (rule interval_nonpos)
next
  fix d assume d: "d \<in> set (buildQuery toOData poolId nodeId w)"
  show "timespan (parameters d) = ''PT'' @ toString w @ ''M''" by (rule buildQuery_fields(3) [OF d])
  show "interval (parameters d) = ''PT'' @ toString (intervalInSeconds (of_int w)) @ ''S''"
    using buildQuery_fields(4) [OF d] by (simp only: computeInterval_def)
qed

lemma zero_window_first:
  "\<lparr>id' = ''cpuUsage'',
    parameters = \<lparr>aggregation = ''avg'', metricId = ''customMetrics/Cpu usage'',
      filter' = PropEq ''cloud/roleName'' ''pool1'', interval = ''PT0S'', timespan = ''PT0M'',
      segment' = ''cloud/roleInstance'', top' = 1000\<rparr>\<rparr>
   \<in> set (buildQuery id ''pool1'' None 0)"
  by code_simp

theorem buildQuery_non_positive_window_witness:
  "(0::int) \<le> 0
   \<and> \<lparr>id' = ''cpuUsage'',
    parameters = \<lparr>aggregation = ''avg'', metricId = ''customMetrics/Cpu usage'',
      filter' = PropEq ''cloud/roleName'' ''pool1'', interval = ''PT0S'', timespan = ''PT0M'',
      segment' = ''cloud/roleInstance'', top' = 1000\<rparr>\<rparr>
   \<in> set (buildQuery id ''pool1'' None 0)
   \<and> length (buildQuery id ''pool1'' None 0) = 14
   \<and> intervalInSeconds (of_int 0) \<le> 0"
proof -
  have h: "(0::int) \<le> 0" by simp
  have l: "length metrics = 14" by (simp add: metrics_def)
  from buildQuery_non_positive_window [of 0 id "''pool1''" None] h
  have "length (buildQuery id ''pool1'' None 0) = length metrics"
    and "intervalInSeconds (of_int 0) \<le> 0" by blast+
  with h l zero_window_first show ?thesis by simp
qed

text \<open>
  C2 as stated fails at the window 0: the pool query is a batch of 14 descriptors with
  interval \<open>PT0S\<close> and time span \<open>PT0M\<close>, not an error.
\<close>

theorem buildPoolQuery_zero_window_counterexample:
  "length (buildPoolQuery id ''pool1'' 0) = 14
   \<and> map (interval \<circ> parameters) (buildPoolQuery id ''pool1'' 0) = replicate 14 ''PT0S''
   \<and> map (timespan \<circ> parameters) (buildPoolQuery id ''pool1'' 0) = replicate 14 ''PT0M''"
  by code_simp

text \<open>
  C4, as amended. For every pool id, every non-empty node id and every window length,
  the filter of the node query is the conjunction of the pool query's filter (the
  equality on \<open>cloud/roleName\<close>, unchanged) with one added equality on
  \<open>cloud/roleInstance\<close>; without a node id the filter is the pool predicate alone.
\<close>

theorem buildFilter_composition:
  "nodeId \<noteq> '''' \<longrightarrow>
     buildFilter poolId (Some nodeId) =
       And (buildFilter poolId None) (PropEq ''cloud/roleInstance'' nodeId)
   \<and> buildFilter poolId None = PropEq ''cloud/roleName'' poolId
   \<and> (\<forall>d \<in> set (buildNodeQuery toOData poolId nodeId w).
         filter' (parameters d) =
           toOData (And (PropEq ''cloud/roleName'' poolId) (PropEq ''cloud/roleInstance'' nodeId)))
   \<and> (\<forall>d \<in> set (buildPoolQuery toOData poolId w).
         filter' (parameters d) = toOData (PropEq ''cloud/roleName'' poolId))"
proof (intro impI conjI ballI)
  assume n: "nodeId \<noteq> ''''"
  then show c: "buildFilter poolId (Some nodeId) =
       And (buildFilter poolId None) (PropEq ''cloud/roleInstance'' nodeId)"
    by (simp add: buildFilter_def truthy_def)
  show p: "buildFilter poolId None = PropEq ''cloud/roleName'' poolId"
    by (simp add: buildFilter_def truthy_def)
  { fix d assume "d \<in> set (buildNodeQuery toOData poolId nodeId w)"
    then have d: "d \<in> set (buildQuery toOData poolId (Some nodeId) w)"
      by (simp only: buildNodeQuery_def)
    show "filter' (parameters d) =
           toOData (And (PropEq ''cloud/roleName'' poolId) (PropEq ''cloud/roleInstance'' nodeId))"
      using buildQuery_fields(5) [OF d] c p by simp }
  { fix d assume "d \<in> set (buildPoolQuery toOData poolId w)"
    then have d: "d \<in> set (buildQuery toOData poolId None w)"
      by (simp only: buildPoolQuery_def)
    show "filter' (parameters d) = toOData (PropEq ''cloud/roleName'' poolId)"
      using buildQuery_fields(5) [OF d] p by simp }
qed

lemma node_query_first:
  "\<lparr>id' = ''cpuUsage'',
    parameters = \<lparr>aggregation = ''avg'', metricId = ''customMetrics/Cpu usage'',
      filter' = And (PropEq ''cloud/roleName'' ''pool1'') (PropEq ''cloud/roleInstance'' ''node1''),
      interval = ''PT10S'', timespan = ''PT100M'',
      segment' = ''cloud/roleInstance'', top' = 1000\<rparr>\<rparr>
   \<in> set (buildNodeQuery id ''pool1'' ''node1'' 100)"
  by code_simp

theorem buildFilter_composition_witness:
  "''node1'' \<noteq> ''''
   \<and> buildFilter ''pool1'' (Some ''node1'') =
       And (PropEq ''cloud/roleName'' ''pool1'') (PropEq ''cloud/roleInstance'' ''node1'')
   \<and> \<lparr>id' = ''cpuUsage'',
    parameters = \<lparr>aggregation = ''avg'', metricId = ''customMetrics/Cpu usage'',
      filter' = And (PropEq ''cloud/roleName'' ''pool1'') (PropEq ''cloud/roleInstance'' ''node1''),
      interval = ''PT10S'', timespan = ''PT100M'',
      segment' = ''cloud/roleInstance'', top' = 1000\<rparr>\<rparr>
   \<in> set (buildNodeQuery id ''pool1'' ''node1'' 100)"
proof -
  have h: "''node1'' \<noteq> ''''" by simp
  from buildFilter_composition [of "''node1''" "''pool1''" id 100] h
  have "buildFilter ''pool1'' (Some ''node1'') =
       And (buildFilter ''pool1'' None) (PropEq ''cloud/roleInstance'' ''node1'')"
    and "buildFilter ''pool1'' None = PropEq ''cloud/roleName'' ''pool1''" by blast+
  with h node_query_first show ?thesis by simp
qed

text \<open>
  C4 as stated fails at the empty node id, which the test \<open>if (nodeId)\<close> treats as
  no node id: the filter is the pool predicate alone, not a conjunction.
\<close>

theorem buildFilter_empty_node_id_counterexample:
  "buildFilter ''pool1'' (Some '''') = PropEq ''cloud/roleName'' ''pool1''
   \<and> buildFilter ''pool1'' (Some '''') \<noteq>
       And (buildFilter ''pool1'' None) (PropEq ''cloud/roleInstance'' '''')"
  by (simp add: buildFilter_def truthy_def)

section \<open>Properties of the fan-out reshaping\<close>

lemma proto_in_prototype: "''__proto__'' \<in> set Object_prototype"
  by (simp add: Object_prototype_def)

lemma pushUsage_own:
  assumes "map_of us d = Some xs"
  shows "pushUsage d s us = Inr (AList.update d (xs @ [s]) us)"
proof -
  from assms have "d \<in> fst ` set us" by (metis map_of_eq_None_iff option.distinct(1))
  then show ?thesis using assms by (simp add: pushUsage_def hasProperty_def)
qed

lemma pushUsage_new:
  assumes "map_of us d = None" and "d \<notin> set Object_prototype"
  shows "pushUsage d s us = Inr (us @ [(d, [s])])"
proof -
  from assms(1) have notin: "d \<notin> fst ` set us" by (simp add: map_of_eq_None_iff)
  from assms(2) proto_in_prototype have np: "d \<noteq> ''__proto__''" by auto
  have u1: "AList.update d [] us = us @ [(d, [])]" using notin
    by (induction us) auto
  have u2: "AList.update d [s] (us @ [(d, [])]) = us @ [(d, [s])]" using notin
    by (induction us) auto
  have m: "map_of (us @ [(d, [])]) d = Some []" using assms(1)
    by (simp add: map_add_def)
  have "pushUsage d s us =
          (case map_of (us @ [(d, [])]) d of
             None \<Rightarrow> Inl TypeError
           | Some series \<Rightarrow> Inr (AList.update d (series @ [s]) (us @ [(d, [])])))"
    using notin assms(2) np
    by (simp only: pushUsage_def hasProperty_def setProperty_def u1 Let_def simp_thms if_True
        if_False)
  with m u2 show ?thesis by simp
qed

lemma represents_keys:
  "represents obs us \<Longrightarrow> fst ` set us = fst ` set obs"
proof -
  assume "represents obs us"
  then have "map fst us = rev (remdups (rev (map fst obs)))" by (simp add: represents_def)
  then have "set (map fst us) = set (map fst obs)" by simp
  then show ?thesis by simp
qed

lemma pushUsage_step:
  assumes inv: "represents obs us" and d: "d \<notin> set Object_prototype"
  shows "\<exists>us'. pushUsage d s us = Inr us' \<and> represents (obs @ [(d, s)]) us'"
proof (cases "map_of us d")
  case None
  then have notin: "d \<notin> fst ` set us" by (simp add: map_of_eq_None_iff)
  then have notobs: "d \<notin> fst ` set obs" using represents_keys [OF inv] by simp
  then have empty: "filter (\<lambda>ob. fst ob = d) obs = []" by (auto simp: filter_empty_conv)
  have "represents (obs @ [(d, s)]) (us @ [(d, [s])])"
    using inv notin notobs empty
    by (auto simp: represents_def map_add_def split: option.splits)
  with pushUsage_new [OF None d] show ?thesis by simp
next
  case (Some xs)
  then have isin: "d \<in> fst ` set us" by (metis map_of_eq_None_iff option.distinct(1))
  then have inobs: "d \<in> fst ` set obs" using represents_keys [OF inv] by simp
  from inv Some inobs have xs: "xs = map snd (filter (\<lambda>ob. fst ob = d) obs)"
    by (simp add: represents_def)
  have "represents (obs @ [(d, s)]) (AList.update d (xs @ [s]) us)"
    using inv isin inobs xs
    by (auto simp: represents_def update_keys update_conv')
  with pushUsage_own [OF Some] show ?thesis by simp
qed

lemma readAvg_present:
  assumes "map_of i metricKey \<noteq> None"
  shows "readAvg metricKey i =
           Inr (case map_of i metricKey of Some (Aggregate v) \<Rightarrow> v | _ \<Rightarrow> Undefined)"
  using assms by (auto simp: readAvg_def split: option.splits property.splits)

lemma processIndividualSegments_inv:
  assumes "getAppInsightsMetricId ident = Inr metricKey"
    and "\<forall>i \<in> set subs. map_of i metricKey \<noteq> None"
    and "\<forall>i \<in> set subs. readDeviceId deviceKey i \<notin> set Object_prototype"
    and "represents obs us"
  shows "\<exists>us'. processIndividualSegments ident deviceKey t subs us = Inr us'
     \<and> represents
          (obs @ map (\<lambda>i. (readDeviceId deviceKey i,
                           \<lparr>time = t,
                            val = (case map_of i metricKey of
                                     Some (Aggregate v) \<Rightarrow> v | _ \<Rightarrow> Undefined)\<rparr>)) subs) us'"
  using assms(2-4)
proof (induction subs arbitrary: obs us)
  case Nil
  then show ?case by simp
next
  case (Cons i rest)
  let ?sample = "\<lparr>time = t, val = (case map_of i metricKey of
                                     Some (Aggregate v) \<Rightarrow> v | _ \<Rightarrow> Undefined)\<rparr>"
  from Cons.prems(1) have avg: "readAvg metricKey i = Inr (val ?sample)"
    by (simp add: readAvg_present)
  from Cons.prems(2) have d: "readDeviceId deviceKey i \<notin> set Object_prototype" by simp
  from pushUsage_step [OF Cons.prems(3) d, of ?sample]
  obtain us1 where push: "pushUsage (readDeviceId deviceKey i) ?sample us = Inr us1"
    and inv1: "represents (obs @ [(readDeviceId deviceKey i, ?sample)]) us1"
    by blast
  from Cons.prems(1) have p1: "\<forall>i \<in> set rest. map_of i metricKey \<noteq> None" by simp
  from Cons.prems(2) have p2: "\<forall>i \<in> set rest. readDeviceId deviceKey i \<notin> set Object_prototype"
    by simp
  from Cons.IH [OF p1 p2 inv1] assms(1) avg push show ?case by simp
qed

lemma processSegments_inv:
  assumes "getAppInsightsMetricId ident = Inr metricKey"
    and "\<forall>seg \<in> set segs. \<forall>i \<in> set (segments seg). map_of i metricKey \<noteq> None"
    and "\<forall>seg \<in> set segs. \<forall>i \<in> set (segments seg).
           readDeviceId deviceKey i \<notin> set Object_prototype"
    and "represents obs us"
  shows "\<exists>us'. processSegments ident deviceKey segs us = Inr us'
     \<and> represents (obs @ spec_observations metricKey deviceKey segs) us'"
  using assms(2-4)
proof (induction segs arbitrary: obs us)
  case Nil
  then show ?case by (simp add: spec_observations_def)
next
  case (Cons seg rest)
  from Cons.prems(1) have a1: "\<forall>i \<in> set (segments seg). map_of i metricKey \<noteq> None" by simp
  from Cons.prems(2) have a2:
    "\<forall>i \<in> set (segments seg). readDeviceId deviceKey i \<notin> set Object_prototype" by simp
  from processIndividualSegments_inv [OF assms(1) a1 a2 Cons.prems(3),
      of "getDateAvg (start seg) (end' seg)"]
  obtain us1 where inner:
    "processIndividualSegments ident deviceKey (getDateAvg (start seg) (end' seg))
       (segments seg) us = Inr us1"
    and inv1: "represents (obs @ spec_observations metricKey deviceKey [seg]) us1"
    by (auto simp: spec_observations_def)
  from Cons.prems(1) have p1:
    "\<forall>s \<in> set rest. \<forall>i \<in> set (segments s). map_of i metricKey \<noteq> None" by simp
  from Cons.prems(2) have p2:
    "\<forall>s \<in> set rest. \<forall>i \<in> set (segments s). readDeviceId deviceKey i \<notin> set Object_prototype"
    by simp
  have split: "spec_observations metricKey deviceKey (seg # rest) =
      spec_observations metricKey deviceKey [seg] @ spec_observations metricKey deviceKey rest"
    by (simp add: spec_observations_def)
  from Cons.IH [OF p1 p2 inv1] inner split show ?case by simp
qed

lemma represents_empty: "represents [] []"
  by (simp add: represents_def)

lemma alist_of_distinct_keys:
  "distinct (map fst us) \<Longrightarrow> map (\<lambda>k. (k, the (map_of us k))) (map fst us) = us"
proof (induction us)
  case Nil
  then show ?case by simp
next
  case (Cons p rest)
  obtain k v where p: "p = (k, v)" by (cases p)
  from Cons.prems p have notin: "k \<notin> fst ` set rest" and d: "distinct (map fst rest)" by auto
  have "map (\<lambda>k'. (k', the (map_of ((k, v) # rest) k'))) (map fst rest)
        = map (\<lambda>k'. (k', the (map_of rest k'))) (map fst rest)"
    using notin by (intro map_cong) auto
  with Cons.IH [OF d] p show ?case by simp
qed

lemma represents_eq:
  assumes "represents obs us"
  shows "us = spec_perDeviceSeries obs"
proof -
  let ?K = "rev (remdups (rev (map fst obs)))"
  from assms have k: "map fst us = ?K"
    and m: "\<And>d. d \<in> fst ` set obs \<Longrightarrow>
               map_of us d = Some (map snd (filter (\<lambda>ob. fst ob = d) obs))"
    by (simp_all add: represents_def)
  have "distinct (map fst us)" by (simp add: k)
  from alist_of_distinct_keys [OF this]
  have "us = map (\<lambda>k. (k, the (map_of us k))) ?K" by (simp add: k)
  also have "\<dots> = map (\<lambda>d. (d, map snd (filter (\<lambda>ob. fst ob = d) obs))) ?K"
    by (intro map_cong) (auto simp: m)
  finally show ?thesis by (simp add: spec_perDeviceSeries_def)
qed

lemma fan_out_general:
  assumes "getAppInsightsMetricId ident = Inr metricKey"
    and "\<forall>seg \<in> set segs. \<forall>i \<in> set (segments seg). map_of i metricKey \<noteq> None"
    and "\<forall>seg \<in> set segs. \<forall>i \<in> set (segments seg).
           readDeviceId deviceKey i \<notin> set Object_prototype"
  shows "processIndividualDeviceUsage ident deviceKey segs
           = Inr (spec_perDeviceSeries (spec_observations metricKey deviceKey segs))"
    and "represents (spec_observations metricKey deviceKey segs)
           (spec_perDeviceSeries (spec_observations metricKey deviceKey segs))"
proof -
  from processSegments_inv [OF assms represents_empty]
  obtain usages where r: "processIndividualDeviceUsage ident deviceKey segs = Inr usages"
    and inv: "represents (spec_observations metricKey deviceKey segs) usages"
    by (auto simp: processIndividualDeviceUsage_def)
  from represents_eq [OF inv] r inv
  show "processIndividualDeviceUsage ident deviceKey segs
           = Inr (spec_perDeviceSeries (spec_observations metricKey deviceKey segs))"
    and "represents (spec_observations metricKey deviceKey segs)
           (spec_perDeviceSeries (spec_observations metricKey deviceKey segs))"
    by simp_all
qed

lemma first_seen_distinct: "distinct (rev (remdups (rev ks)))"
  by simp

lemma example_two_devices:
  "processIndividualDeviceUsage ''individualCpuUsage'' ''customDimensions/CPU #''
     [\<lparr>start = 0, end' = 60, segments =
        [[(''customMetrics/Cpu usage'', Aggregate (Number 10)),
          (''customDimensions/CPU #'', Dimension ''0'')],
         [(''customMetrics/Cpu usage'', Aggregate (Number 20)),
          (''customDimensions/CPU #'', Dimension ''1'')]]\<rparr>]
   = Inr [(''0'', [\<lparr>time = 30, val = Number 10\<rparr>]), (''1'', [\<lparr>time = 30, val = Number 20\<rparr>])]"
  by code_simp

lemma example_sparse:
  "processIndividualDeviceUsage ''individualGpuUsage'' ''customDimensions/GPU #''
     [\<lparr>start = 0, end' = 60, segments =
        [[(''customMetrics/Gpu usage'', Aggregate (Number 10)),
          (''customDimensions/GPU #'', Dimension ''0'')],
         [(''customMetrics/Gpu usage'', Aggregate (Number 20)),
          (''customDimensions/GPU #'', Dimension ''1'')]]\<rparr>,
      \<lparr>start = 60, end' = 120, segments =
        [[(''customMetrics/Gpu usage'', Aggregate (Number 30)),
          (''customDimensions/GPU #'', Dimension ''0'')]]\<rparr>]
   = Inr [(''0'', [\<lparr>time = 30, val = Number 10\<rparr>, \<lparr>time = 90, val = Number 30\<rparr>]),
          (''1'', [\<lparr>time = 30, val = Number 20\<rparr>])]"
  by code_simp

section \<open>Malformed buckets\<close>

lemma error_is_TypeError: "(e::error) = TypeError"
  by (cases e) simp

lemma processIndividualSegments_missing:
  assumes "getAppInsightsMetricId ident = Inr metricKey"
    and "\<exists>i \<in> set subs. map_of i metricKey = None"
  shows "processIndividualSegments ident deviceKey t subs us = Inl TypeError"
  using assms(2)
proof (induction subs arbitrary: us)
  case Nil
  then show ?case by simp
next
  case (Cons i rest)
  show ?case
  proof (cases "map_of i metricKey")
    case None
    then show ?thesis using assms(1) by (simp add: readAvg_def)
  next
    case (Some a)
    with Cons.prems have "\<exists>i \<in> set rest. map_of i metricKey = None" by auto
    from Cons.IH [OF this] assms(1) show ?thesis
      by (auto simp: error_is_TypeError split: sum.splits)
  qed
qed

lemma processSegments_missing:
  assumes "getAppInsightsMetricId ident = Inr metricKey"
    and "\<exists>seg \<in> set segs. \<exists>i \<in> set (segments seg). map_of i metricKey = None"
  shows "processSegments ident deviceKey segs us = Inl TypeError"
  using assms(2)
proof (induction segs arbitrary: us)
  case Nil
  then show ?case by simp
next
  case (Cons seg rest)
  show ?case
  proof (cases "\<exists>i \<in> set (segments seg). map_of i metricKey = None")
    case True
    from processIndividualSegments_missing [OF assms(1) True] show ?thesis by simp
  next
    case False
    with Cons.prems have "\<exists>seg \<in> set rest. \<exists>i \<in> set (segments seg). map_of i metricKey = None"
      by auto
    from Cons.IH [OF this] show ?thesis
      by (auto simp: error_is_TypeError Let_def split: sum.splits)
  qed
qed

text \<open>
  C8, as amended. A sub-aggregate without the aggregate object of its metric makes the
  reshaping throw a plain \<open>TypeError\<close>, which names neither the metric key nor the
  bucket. A missing device-dimension field or a missing \<open>avg\<close> raises nothing: the
  sample is kept, filed under the key \<open>"undefined"\<close> or holding the value
  \<open>undefined\<close>. No value is replaced by zero and no sample is left out.
\<close>

theorem processIndividualDeviceUsage_missing_field:
  "getAppInsightsMetricId ident = Inr metricKey \<longrightarrow>
     ((\<exists>seg \<in> set segs. \<exists>i \<in> set (segments seg). map_of i metricKey = None) \<longrightarrow>
         processIndividualDeviceUsage ident deviceKey segs = Inl TypeError)
   \<and> ((\<forall>seg \<in> set segs. \<forall>i \<in> set (segments seg).
          map_of i metricKey \<noteq> None \<and> readDeviceId deviceKey i \<notin> set Object_prototype) \<longrightarrow>
         processIndividualDeviceUsage ident deviceKey segs
           = Inr (spec_perDeviceSeries (spec_observations metricKey deviceKey segs)))
   \<and> (map_of i metricKey = Some (Aggregate v) \<and> map_of i deviceKey = None \<longrightarrow>
         processIndividualDeviceUsage ident deviceKey [\<lparr>start = s, end' = e, segments = [i]\<rparr>]
           = Inr [(''undefined'', [\<lparr>time = getDateAvg s e, val = v\<rparr>])])
   \<and> (map_of i metricKey = Some (Aggregate Undefined) \<and> map_of i deviceKey = Some (Dimension d)
        \<and> d \<notin> set Object_prototype \<longrightarrow>
         processIndividualDeviceUsage ident deviceKey [\<lparr>start = s, end' = e, segments = [i]\<rparr>]
           = Inr [(d, [\<lparr>time = getDateAvg s e, val = Undefined\<rparr>])])"
proof (intro impI conjI)
  assume m: "getAppInsightsMetricId ident = Inr metricKey"
  { assume "\<exists>seg \<in> set segs. \<exists>i \<in> set (segments seg). map_of i metricKey = None"
    from processSegments_missing [OF m this]
    show "processIndividualDeviceUsage ident deviceKey segs = Inl TypeError"
      by (simp add: processIndividualDeviceUsage_def) }
  { assume wf: "\<forall>seg \<in> set segs. \<forall>i \<in> set (segments seg).
          map_of i metricKey \<noteq> None \<and> readDeviceId deviceKey i \<notin> set Object_prototype"
    then have a: "\<forall>seg \<in> set segs. \<forall>i \<in> set (segments seg). map_of i metricKey \<noteq> None"
      and b: "\<forall>seg \<in> set segs. \<forall>i \<in> set (segments seg).
          readDeviceId deviceKey i \<notin> set Object_prototype" by blast+
    show "processIndividualDeviceUsage ident deviceKey segs
           = Inr (spec_perDeviceSeries (spec_observations metricKey deviceKey segs))"
      by (rule fan_out_general(1) [OF m a b]) }
  { assume "map_of i metricKey = Some (Aggregate v) \<and> map_of i deviceKey = None"
    then have avg: "readAvg metricKey i = Inr v" and dev: "readDeviceId deviceKey i = ''undefined''"
      by (simp_all add: readAvg_def readDeviceId_def)
    have "''undefined'' \<notin> set Object_prototype" by (simp add: Object_prototype_def)
    from pushUsage_new [OF _ this, of "[]"]
    have "pushUsage ''undefined'' \<lparr>time = getDateAvg s e, val = v\<rparr> []
            = Inr [(''undefined'', [\<lparr>time = getDateAvg s e, val = v\<rparr>])]" by simp
    with m avg dev
    show "processIndividualDeviceUsage ident deviceKey [\<lparr>start = s, end' = e, segments = [i]\<rparr>]
           = Inr [(''undefined'', [\<lparr>time = getDateAvg s e, val = v\<rparr>])]"
      by (simp add: processIndividualDeviceUsage_def) }
  { assume "map_of i metricKey = Some (Aggregate Undefined) \<and> map_of i deviceKey = Some (Dimension d)
        \<and> d \<notin> set Object_prototype"
    then have avg: "readAvg metricKey i = Inr Undefined" and dev: "readDeviceId deviceKey i = d"
      and d: "d \<notin> set Object_prototype"
      by (simp_all add: readAvg_def readDeviceId_def)
    from pushUsage_new [OF _ d, of "[]"]
    have "pushUsage d \<lparr>time = getDateAvg s e, val = Undefined\<rparr> []
            = Inr [(d, [\<lparr>time = getDateAvg s e, val = Undefined\<rparr>])]" by simp
    with m avg dev
    show "processIndividualDeviceUsage ident deviceKey [\<lparr>start = s, end' = e, segments = [i]\<rparr>]
           = Inr [(d, [\<lparr>time = getDateAvg s e, val = Undefined\<rparr>])]"
      by (simp add: processIndividualDeviceUsage_def) }
qed

theorem processIndividualDeviceUsage_missing_field_witness:
  "getAppInsightsMetricId ''individualCpuUsage'' = Inr ''customMetrics/Cpu usage''
   \<and> map_of [(''customDimensions/CPU #'', Dimension ''0'')] ''customMetrics/Cpu usage'' = None
   \<and> processIndividualDeviceUsage ''individualCpuUsage'' ''customDimensions/CPU #''
       [\<lparr>start = 0, end' = 60, segments = [[(''customDimensions/CPU #'', Dimension ''0'')]]\<rparr>]
     = Inl TypeError
   \<and> map_of [(''customMetrics/Cpu usage'', Aggregate (Number 10))] ''customDimensions/CPU #'' = None
   \<and> processIndividualDeviceUsage ''individualCpuUsage'' ''customDimensions/CPU #''
       [\<lparr>start = 0, end' = 60, segments =
          [[(''customMetrics/Cpu usage'', Aggregate (Number 10))]]\<rparr>]
     = Inr [(''undefined'', [\<lparr>time = getDateAvg 0 60, val = Number 10\<rparr>])]
   \<and> ''0'' \<notin> set Object_prototype
   \<and> processIndividualDeviceUsage ''individualCpuUsage'' ''customDimensions/CPU #''
       [\<lparr>start = 0, end' = 60, segments =
          [[(''customMetrics/Cpu usage'', Aggregate Undefined),
            (''customDimensions/CPU #'', Dimension ''0'')]]\<rparr>]
     = Inr [(''0'', [\<lparr>time = getDateAvg 0 60, val = Undefined\<rparr>])]
   \<and> spec_perDeviceSeries
       (spec_observations ''customMetrics/Cpu usage'' ''customDimensions/CPU #''
          [\<lparr>start = 0, end' = 60, segments =
             [[(''customMetrics/Cpu usage'', Aggregate Undefined),
               (''customDimensions/CPU #'', Dimension ''0'')]]\<rparr>])
      = [(''0'', [\<lparr>time = getDateAvg 0 60, val = Undefined\<rparr>])]"
proof -
  let ?bad = "[(''customDimensions/CPU #'', Dimension ''0'')]"
  let ?nodev = "[(''customMetrics/Cpu usage'', Aggregate (Number 10))]"
  let ?noavg = "[(''customMetrics/Cpu usage'', Aggregate Undefined),
                 (''customDimensions/CPU #'', Dimension ''0'')]"
  have h: "getAppInsightsMetricId ''individualCpuUsage'' = Inr ''customMetrics/Cpu usage''"
    by code_simp
  have m1: "map_of ?bad ''customMetrics/Cpu usage'' = None" by simp
  then have ex: "\<exists>seg \<in> set [\<lparr>start = 0, end' = 60, segments = [?bad]\<rparr>].
      \<exists>i \<in> set (segments seg). map_of i ''customMetrics/Cpu usage'' = None"
    by simp
  have m2: "map_of ?nodev ''customMetrics/Cpu usage'' = Some (Aggregate (Number 10))
      \<and> map_of ?nodev ''customDimensions/CPU #'' = None" by simp
  have p: "''0'' \<notin> set Object_prototype" by (simp add: Object_prototype_def)
  have m3: "map_of ?noavg ''customMetrics/Cpu usage'' = Some (Aggregate Undefined)
      \<and> map_of ?noavg ''customDimensions/CPU #'' = Some (Dimension ''0'')
      \<and> ''0'' \<notin> set Object_prototype" using p by simp
  have wf: "\<forall>seg \<in> set [\<lparr>start = 0, end' = 60, segments = [?noavg]\<rparr>]. \<forall>i \<in> set (segments seg).
      map_of i ''customMetrics/Cpu usage'' \<noteq> None
      \<and> readDeviceId ''customDimensions/CPU #'' i \<notin> set Object_prototype"
    using p by (simp add: readDeviceId_def)
  note t = processIndividualDeviceUsage_missing_field
  from t [where ident = "''individualCpuUsage''" and metricKey = "''customMetrics/Cpu usage''"
        and segs = "[\<lparr>start = 0, end' = 60, segments = [?bad]\<rparr>]"
        and deviceKey = "''customDimensions/CPU #''"] h ex
  have r1: "processIndividualDeviceUsage ''individualCpuUsage'' ''customDimensions/CPU #''
       [\<lparr>start = 0, end' = 60, segments = [?bad]\<rparr>] = Inl TypeError"
    by blast
  from t [where ident = "''individualCpuUsage''" and metricKey = "''customMetrics/Cpu usage''"
        and deviceKey = "''customDimensions/CPU #''" and i = ?nodev and v = "Number 10"
        and s = 0 and e = 60] h m2
  have r2: "processIndividualDeviceUsage ''individualCpuUsage'' ''customDimensions/CPU #''
       [\<lparr>start = 0, end' = 60, segments = [?nodev]\<rparr>]
     = Inr [(''undefined'', [\<lparr>time = getDateAvg 0 60, val = Number 10\<rparr>])]"
    by blast
  from t [where ident = "''individualCpuUsage''" and metricKey = "''customMetrics/Cpu usage''"
        and deviceKey = "''customDimensions/CPU #''" and i = ?noavg and d = "''0''"
        and s = 0 and e = 60
        and segs = "[\<lparr>start = 0, end' = 60, segments = [?noavg]\<rparr>]"] h m3 wf
  have r3: "processIndividualDeviceUsage ''individualCpuUsage'' ''customDimensions/CPU #''
       [\<lparr>start = 0, end' = 60, segments = [?noavg]\<rparr>]
     = Inr [(''0'', [\<lparr>time = getDateAvg 0 60, val = Undefined\<rparr>])]"
    and r4: "processIndividualDeviceUsage ''individualCpuUsage''
        ''customDimensions/CPU #'' [\<lparr>start = 0, end' = 60, segments = [?noavg]\<rparr>]
      = Inr (spec_perDeviceSeries (spec_observations ''customMetrics/Cpu usage''
            ''customDimensions/CPU #'' [\<lparr>start = 0, end' = 60, segments = [?noavg]\<rparr>]))"
    by blast+
  from r3 r4 have r5: "spec_perDeviceSeries (spec_observations ''customMetrics/Cpu usage''
            ''customDimensions/CPU #'' [\<lparr>start = 0, end' = 60, segments = [?noavg]\<rparr>])
         = [(''0'', [\<lparr>time = getDateAvg 0 60, val = Undefined\<rparr>])]"
    by simp
  from h m1 m2 p r1 r2 r3 r5 show ?thesis by blast
qed

text \<open>
  C8 as stated fails for a bucket whose sub-aggregate has no device-dimension field, and
  for one whose aggregate has no \<open>avg\<close>: the reshaping returns a series and no error.
\<close>

theorem processIndividualDeviceUsage_missing_field_counterexample:
  "processIndividualDeviceUsage ''individualCpuUsage'' ''customDimensions/CPU #''
     [\<lparr>start = 0, end' = 60, segments =
        [[(''customMetrics/Cpu usage'', Aggregate (Number 10))]]\<rparr>]
   = Inr [(''undefined'', [\<lparr>time = 30, val = Number 10\<rparr>])]
   \<and> processIndividualDeviceUsage ''individualCpuUsage'' ''customDimensions/CPU #''
     [\<lparr>start = 0, end' = 60, segments =
        [[(''customMetrics/Cpu usage'', Aggregate Undefined),
          (''customDimensions/CPU #'', Dimension ''0'')]]\<rparr>]
   = Inr [(''0'', [\<lparr>time = 30, val = Undefined\<rparr>])]"
  by code_simp

section \<open>Sample times\<close>

lemma getDateAvg_trunc:
  "getDateAvg s e = (if 0 \<le> s + e then (s + e) div 2 else - ((- (s + e)) div 2))"
  by (simp add: getDateAvg_def signed_divide_int_def sgn_if add.commute)

lemma getDateAvg_even: "even (s + e) \<Longrightarrow> 2 * getDateAvg s e = s + e"
  unfolding getDateAvg_trunc by (auto elim!: evenE)

lemma getDateAvg_near: "\<bar>2 * getDateAvg s e - (s + e)\<bar> \<le> 1"
  unfolding getDateAvg_trunc by (simp split: if_splits) linarith

lemma getDateAvg_inside: "s + 2 \<le> e \<Longrightarrow> s < getDateAvg s e \<and> getDateAvg s e < e"
  using getDateAvg_near [of s e] by linarith

lemma set_update_subset: "set (AList.update k v al) \<subseteq> insert (k, v) (set al)"
  by (induction al) auto

lemma flat_example:
  "flatSeries bucket_value
     [\<lparr>start = 0, end' = 60, bucket_value = Number 5\<rparr>,
      \<lparr>start = 60, end' = 120, bucket_value = Number 7\<rparr>]
   = [\<lparr>time = 30, val = Number 5\<rparr>, \<lparr>time = 90, val = Number 7\<rparr>]"
  by code_simp

lemma one_sample_example:
  "processIndividualDeviceUsage ''individualCpuUsage'' ''customDimensions/CPU #''
     [\<lparr>start = 0, end' = 60, segments =
        [[(''customMetrics/Cpu usage'', Aggregate (Number 10)),
          (''customDimensions/CPU #'', Dimension ''0'')]]\<rparr>]
   = Inr [(''0'', [\<lparr>time = 30, val = Number 10\<rparr>])]"
  by code_simp

lemma getDateAvg_spec: "getDateAvg s e = spec_truncatedMidpoint s e"
  by (simp add: getDateAvg_trunc spec_truncatedMidpoint_def)

lemma pushUsage_success:
  assumes r: "pushUsage d s us = Inr us'"
    and k: "fst ` set us \<inter> set Object_prototype = {}"
  shows "d \<notin> set Object_prototype" and "fst ` set us' \<inter> set Object_prototype = {}"
proof -
  show d: "d \<notin> set Object_prototype"
  proof
    assume p: "d \<in> set Object_prototype"
    with k have "d \<notin> fst ` set us" by auto
    then have "map_of us d = None" by (simp add: map_of_eq_None_iff)
    with p have "pushUsage d s us = Inl TypeError"
      by (simp add: pushUsage_def hasProperty_def)
    with r show False by simp
  qed
  show "fst ` set us' \<inter> set Object_prototype = {}"
  proof (cases "map_of us d")
    case None
    from pushUsage_new [OF None d, of s] r have "us' = us @ [(d, [s])]" by simp
    with k d show ?thesis by auto
  next
    case (Some xs)
    from pushUsage_own [OF Some, of s] r have "us' = AList.update d (xs @ [s]) us" by simp
    then have "map fst us' = (if d \<in> set (map fst us) then map fst us else map fst us @ [d])"
      by (simp only: update_keys)
    then have "set (map fst us') \<subseteq> insert d (set (map fst us))"
      by (cases "d \<in> set (map fst us)") auto
    then have "fst ` set us' \<subseteq> insert d (fst ` set us)" by simp
    with k d show ?thesis by blast
  qed
qed

lemma readAvg_Inr: "readAvg metricKey i = Inr v \<Longrightarrow> map_of i metricKey \<noteq> None"
  by (auto simp: readAvg_def split: option.splits)

lemma processIndividualSegments_success:
  assumes "processIndividualSegments ident deviceKey t subs us = Inr us'"
    and "fst ` set us \<inter> set Object_prototype = {}"
  shows "fst ` set us' \<inter> set Object_prototype = {}"
    and "\<forall>i \<in> set subs. readDeviceId deviceKey i \<notin> set Object_prototype"
    and "\<forall>i \<in> set subs. \<exists>metricKey. getAppInsightsMetricId ident = Inr metricKey
           \<and> map_of i metricKey \<noteq> None"
  using assms
proof (induction subs arbitrary: us)
  case Nil
  {
    case 1 then show ?case by simp
  next
    case 2 then show ?case by simp
  next
    case 3 then show ?case by simp
  }
next
  case (Cons i rest)
  {
    case 1
    from 1(1) obtain metricKey v us1 where m: "getAppInsightsMetricId ident = Inr metricKey"
      and a: "readAvg metricKey i = Inr v"
      and p: "pushUsage (readDeviceId deviceKey i) \<lparr>time = t, val = v\<rparr> us = Inr us1"
      and rest: "processIndividualSegments ident deviceKey t rest us1 = Inr us'"
      by (auto split: sum.splits)
    from Cons.IH(1) [OF rest pushUsage_success(2) [OF p 1(2)]] show ?case .
  next
    case 2
    from 2(1) obtain metricKey v us1 where m: "getAppInsightsMetricId ident = Inr metricKey"
      and a: "readAvg metricKey i = Inr v"
      and p: "pushUsage (readDeviceId deviceKey i) \<lparr>time = t, val = v\<rparr> us = Inr us1"
      and rest: "processIndividualSegments ident deviceKey t rest us1 = Inr us'"
      by (auto split: sum.splits)
    from Cons.IH(2) [OF rest pushUsage_success(2) [OF p 2(2)]] pushUsage_success(1) [OF p 2(2)]
    show ?case by simp
  next
    case 3
    from 3(1) obtain metricKey v us1 where m: "getAppInsightsMetricId ident = Inr metricKey"
      and a: "readAvg metricKey i = Inr v"
      and p: "pushUsage (readDeviceId deviceKey i) \<lparr>time = t, val = v\<rparr> us = Inr us1"
      and rest: "processIndividualSegments ident deviceKey t rest us1 = Inr us'"
      by (auto split: sum.splits)
    from Cons.IH(3) [OF rest pushUsage_success(2) [OF p 3(2)]] m readAvg_Inr [OF a]
    show ?case by simp
  }
qed

lemma processSegments_success:
  assumes "processSegments ident deviceKey segs us = Inr us'"
    and "fst ` set us \<inter> set Object_prototype = {}"
  shows "fst ` set us' \<inter> set Object_prototype = {}"
    and "\<forall>seg \<in> set segs. \<forall>i \<in> set (segments seg).
           readDeviceId deviceKey i \<notin> set Object_prototype"
    and "\<forall>seg \<in> set segs. \<forall>i \<in> set (segments seg).
           \<exists>metricKey. getAppInsightsMetricId ident = Inr metricKey
             \<and> map_of i metricKey \<noteq> None"
  using assms
proof (induction segs arbitrary: us)
  case Nil
  {
    case 1 then show ?case by simp
  next
    case 2 then show ?case by simp
  next
    case 3 then show ?case by simp
  }
next
  case (Cons seg rest)
  {
    case 1
    from 1(1) obtain us1 where inner:
      "processIndividualSegments ident deviceKey (getDateAvg (start seg) (end' seg))
         (segments seg) us = Inr us1"
      and rest: "processSegments ident deviceKey rest us1 = Inr us'"
      by (auto simp: Let_def split: sum.splits)
    from Cons.IH(1) [OF rest processIndividualSegments_success(1) [OF inner 1(2)]]
    show ?case .
  next
    case 2
    from 2(1) obtain us1 where inner:
      "processIndividualSegments ident deviceKey (getDateAvg (start seg) (end' seg))
         (segments seg) us = Inr us1"
      and rest: "processSegments ident deviceKey rest us1 = Inr us'"
      by (auto simp: Let_def split: sum.splits)
    from Cons.IH(2) [OF rest processIndividualSegments_success(1) [OF inner 2(2)]]
      processIndividualSegments_success(2) [OF inner 2(2)]
    show ?case by simp
  next
    case 3
    from 3(1) obtain us1 where inner:
      "processIndividualSegments ident deviceKey (getDateAvg (start seg) (end' seg))
         (segments seg) us = Inr us1"
      and rest: "processSegments ident deviceKey rest us1 = Inr us'"
      by (auto simp: Let_def split: sum.splits)
    from Cons.IH(3) [OF rest processIndividualSegments_success(1) [OF inner 3(2)]]
      processIndividualSegments_success(3) [OF inner 3(2)]
    show ?case by simp
  }
qed

lemma processSegments_no_subaggregates:
  "\<forall>seg \<in> set segs. segments seg = [] \<Longrightarrow> processSegments ident deviceKey segs us = Inr us"
  by (induction segs arbitrary: us) simp_all

lemma spec_observations_no_subaggregates:
  "\<forall>seg \<in> set segs. segments seg = [] \<Longrightarrow> spec_observations metricKey deviceKey segs = []"
  by (induction segs) (simp_all add: spec_observations_def)

lemma fan_out_success:
  assumes "processIndividualDeviceUsage ident deviceKey segs = Inr usages"
  shows "\<exists>metricKey. usages = spec_perDeviceSeries (spec_observations metricKey deviceKey segs)"
proof -
  from assms have r: "processSegments ident deviceKey segs [] = Inr usages"
    by (simp add: processIndividualDeviceUsage_def)
  have e: "fst ` set ([] :: usages) \<inter> set Object_prototype = {}" by simp
  note dev = processSegments_success(2) [OF r e]
  note agg = processSegments_success(3) [OF r e]
  show ?thesis
  proof (cases "getAppInsightsMetricId ident")
    case (Inr metricKey)
    with agg have a: "\<forall>seg \<in> set segs. \<forall>i \<in> set (segments seg). map_of i metricKey \<noteq> None"
      by auto
    from fan_out_general(1) [OF Inr a dev] assms
    have "usages = spec_perDeviceSeries (spec_observations metricKey deviceKey segs)" by simp
    then show ?thesis by blast
  next
    case (Inl err)
    with agg have none: "\<forall>seg \<in> set segs. segments seg = []"
      by (metis Inl_Inr_False all_not_in_conv set_empty)
    from processSegments_no_subaggregates [OF none, of ident deviceKey "[]"] r
    have "usages = []" by simp
    then have "usages = spec_perDeviceSeries (spec_observations [] deviceKey segs)"
      by (simp add: spec_observations_no_subaggregates [OF none] spec_perDeviceSeries_def)
    then show ?thesis by blast
  qed
qed

lemma spec_observations_times:
  "map (time \<circ> snd) (filter (\<lambda>ob. fst ob = d) (spec_observations metricKey deviceKey segs))
     = spec_deviceTimes deviceKey d segs"
  by (induction segs)
     (simp_all add: spec_observations_def spec_deviceTimes_def filter_map comp_def
        getDateAvg_spec)

lemma spec_perDeviceSeries_member:
  "(d, series) \<in> set (spec_perDeviceSeries obs)
     \<Longrightarrow> series = map snd (filter (\<lambda>ob. fst ob = d) obs)"
  by (auto simp: spec_perDeviceSeries_def)

lemma fan_out_own_bucket:
  assumes "processIndividualDeviceUsage ident deviceKey segs = Inr usages"
    and "(d, series) \<in> set usages"
  shows "map time series = spec_deviceTimes deviceKey d segs"
proof -
  from fan_out_success [OF assms(1)] obtain metricKey where
    "usages = spec_perDeviceSeries (spec_observations metricKey deviceKey segs)" by blast
  with assms(2) have "series = map snd (filter (\<lambda>ob. fst ob = d)
      (spec_observations metricKey deviceKey segs))"
    by (simp add: spec_perDeviceSeries_member)
  then show ?thesis using spec_observations_times [of d metricKey deviceKey segs] by simp
qed

lemma truncatedMidpoint_even: "even (s + e) \<Longrightarrow> 2 * spec_truncatedMidpoint s e = s + e"
  using getDateAvg_even [of s e] by (simp add: getDateAvg_spec)

lemma truncatedMidpoint_near: "\<bar>2 * spec_truncatedMidpoint s e - (s + e)\<bar> \<le> 1"
  using getDateAvg_near [of s e] by (simp add: getDateAvg_spec)

lemma truncatedMidpoint_inside:
  "s + 2 \<le> e \<Longrightarrow> s < spec_truncatedMidpoint s e \<and> spec_truncatedMidpoint s e < e"
  using getDateAvg_inside [of s e] by (simp add: getDateAvg_spec)

lemma sparse_times:
  "spec_deviceTimes ''customDimensions/GPU #'' ''0''
     [\<lparr>start = 0, end' = 60, segments =
        [[(''customMetrics/Gpu usage'', Aggregate (Number 10)),
          (''customDimensions/GPU #'', Dimension ''0'')],
         [(''customMetrics/Gpu usage'', Aggregate (Number 20)),
          (''customDimensions/GPU #'', Dimension ''1'')]]\<rparr>,
      \<lparr>start = 60, end' = 120, segments =
        [[(''customMetrics/Gpu usage'', Aggregate (Number 30)),
          (''customDimensions/GPU #'', Dimension ''0'')]]\<rparr>]
   = [30, 90]"
  by code_simp

text \<open>
  C5, as amended. The time of every reshaped sample is the midpoint of its own bucket's
  \<open>[start, end)\<close> rounded toward zero to a whole millisecond: the series of a device
  holds, in order, one sample for every sub-aggregate that names the device, and their
  times are the truncated midpoints of the buckets of these sub-aggregates; a flat
  series holds one sample per bucket, at the truncated midpoint of that bucket. The
  truncated midpoint is what \<open>_getDateAvg\<close> computes; it is the exact midpoint when
  \<open>start + end\<close> is even, within half a millisecond of it otherwise, and strictly
  between start and end whenever the bucket is at least 2 ms long. The flat buckets
  \<open>[{start:0,end:60,value:5},{start:60,end:120,value:7}]\<close> yield
  \<open>[{time:30,value:5},{time:90,value:7}]\<close>.
\<close>
theorem sample_time_is_truncated_midpoint:
  "(processIndividualDeviceUsage ident deviceKey segs = Inr usages \<longrightarrow>
      (\<forall>(d, series) \<in> set usages. map time series = spec_deviceTimes deviceKey d segs))
   \<and> flatSeries extract buckets
       = map (\<lambda>b. \<lparr>time = spec_truncatedMidpoint (start b) (end' b), val = extract b\<rparr>) buckets
   \<and> getDateAvg s e = spec_truncatedMidpoint s e
   \<and> (even (s + e) \<longrightarrow> 2 * spec_truncatedMidpoint s e = s + e)
   \<and> \<bar>2 * spec_truncatedMidpoint s e - (s + e)\<bar> \<le> 1
   \<and> (s + 2 \<le> e \<longrightarrow> s < spec_truncatedMidpoint s e \<and> spec_truncatedMidpoint s e < e)
   \<and> flatSeries bucket_value
        [\<lparr>start = 0, end' = 60, bucket_value = Number 5\<rparr>,
         \<lparr>start = 60, end' = 120, bucket_value = Number 7\<rparr>]
      = [\<lparr>time = 30, val = Number 5\<rparr>, \<lparr>time = 90, val = Number 7\<rparr>]"
proof (intro conjI impI)
  assume "processIndividualDeviceUsage ident deviceKey segs = Inr usages"
  then show "\<forall>(d, series) \<in> set usages. map time series = spec_deviceTimes deviceKey d segs"
    using fan_out_own_bucket by fast
next
  show "flatSeries extract buckets
       = map (\<lambda>b. \<lparr>time = spec_truncatedMidpoint (start b) (end' b), val = extract b\<rparr>) buckets"
    by (simp add: flatSeries_def getDateAvg_spec)
  show "getDateAvg s e = spec_truncatedMidpoint s e" by (rule getDateAvg_spec)
  show "\<bar>2 * spec_truncatedMidpoint s e - (s + e)\<bar> \<le> 1" by (rule truncatedMidpoint_near)
  show "flatSeries bucket_value
        [\<lparr>start = 0, end' = 60, bucket_value = Number 5\<rparr>,
         \<lparr>start = 60, end' = 120, bucket_value = Number 7\<rparr>]
      = [\<lparr>time = 30, val = Number 5\<rparr>, \<lparr>time = 90, val = Number 7\<rparr>]"
    by (rule flat_example)
next
  assume "even (s + e)"
  then show "2 * spec_truncatedMidpoint s e = s + e" by (rule truncatedMidpoint_even)
next
  assume "s + 2 \<le> e"
  then show "s < spec_truncatedMidpoint s e" and "spec_truncatedMidpoint s e < e"
    using truncatedMidpoint_inside by blast+
qed

theorem sample_time_is_truncated_midpoint_witness:
  "processIndividualDeviceUsage ''individualGpuUsage'' ''customDimensions/GPU #''
     [\<lparr>start = 0, end' = 60, segments =
        [[(''customMetrics/Gpu usage'', Aggregate (Number 10)),
          (''customDimensions/GPU #'', Dimension ''0'')],
         [(''customMetrics/Gpu usage'', Aggregate (Number 20)),
          (''customDimensions/GPU #'', Dimension ''1'')]]\<rparr>,
      \<lparr>start = 60, end' = 120, segments =
        [[(''customMetrics/Gpu usage'', Aggregate (Number 30)),
          (''customDimensions/GPU #'', Dimension ''0'')]]\<rparr>]
   = Inr [(''0'', [\<lparr>time = 30, val = Number 10\<rparr>, \<lparr>time = 90, val = Number 30\<rparr>]),
          (''1'', [\<lparr>time = 30, val = Number 20\<rparr>])]
   \<and> map time [\<lparr>time = 30, val = Number 10\<rparr>, \<lparr>time = 90, val = Number 30\<rparr>] = [30, 90]
   \<and> spec_truncatedMidpoint 0 60 = 30 \<and> spec_truncatedMidpoint 60 120 = 90
   \<and> even ((0::int) + 60) \<and> 2 * spec_truncatedMidpoint 0 60 = 0 + 60
   \<and> (0::int) + 2 \<le> 60 \<and> 0 < spec_truncatedMidpoint 0 60 \<and> spec_truncatedMidpoint 0 60 < 60"
proof -
  let ?segs = "[\<lparr>start = 0, end' = 60, segments =
        [[(''customMetrics/Gpu usage'', Aggregate (Number 10)),
          (''customDimensions/GPU #'', Dimension ''0'')],
         [(''customMetrics/Gpu usage'', Aggregate (Number 20)),
          (''customDimensions/GPU #'', Dimension ''1'')]]\<rparr>,
      \<lparr>start = 60, end' = 120, segments =
        [[(''customMetrics/Gpu usage'', Aggregate (Number 30)),
          (''customDimensions/GPU #'', Dimension ''0'')]]\<rparr>]"
  let ?s0 = "[\<lparr>time = 30, val = Number 10\<rparr>, \<lparr>time = 90, val = Number 30\<rparr>]"
  let ?us = "[(''0'', ?s0), (''1'', [\<lparr>time = 30, val = Number 20\<rparr>])]"
  have h1: "even ((0::int) + 60)" by simp
  have h2: "(0::int) + 2 \<le> 60" by simp
  have m: "spec_truncatedMidpoint 0 60 = 30 \<and> spec_truncatedMidpoint 60 120 = 90"
    by (simp add: spec_truncatedMidpoint_def)
  note t = sample_time_is_truncated_midpoint [of "''individualGpuUsage''"
      "''customDimensions/GPU #''" ?segs ?us _ _ 0 60]
  from t example_sparse
  have "\<forall>(d, series) \<in> set ?us. map time series
          = spec_deviceTimes ''customDimensions/GPU #'' d ?segs" by blast
  then have "map time ?s0 = spec_deviceTimes ''customDimensions/GPU #'' ''0'' ?segs" by simp
  then have c1: "map time ?s0 = [30, 90]" by (simp only: sparse_times)
  from t h1 have c2: "2 * spec_truncatedMidpoint 0 60 = 0 + 60" by blast
  from t h2 have c3: "0 < spec_truncatedMidpoint 0 60 \<and> spec_truncatedMidpoint 0 60 < 60"
    by blast
  from example_sparse c1 m h1 c2 h2 c3 show ?thesis by blast
qed

text \<open>
  C5 as stated fails for the bucket \<open>[0, 1)\<close>: \<open>new Date(0.5)\<close> has the time value 0,
  so the sample's time is the bucket's start.
\<close>

theorem sample_time_is_start_counterexample:
  "getDateAvg 0 1 = 0
   \<and> processIndividualDeviceUsage ''individualCpuUsage'' ''customDimensions/CPU #''
       [\<lparr>start = 0, end' = 1, segments =
          [[(''customMetrics/Cpu usage'', Aggregate (Number 5)),
            (''customDimensions/CPU #'', Dimension ''0'')]]\<rparr>]
      = Inr [(''0'', [\<lparr>time = 0, val = Number 5\<rparr>])]
   \<and> getDateAvg 0 0 = 0"
  by code_simp

section \<open>Enumeration of the per-device dictionary\<close>

lemma isArrayIndex_examples:
  "isArrayIndex ''0''" "isArrayIndex ''1''" "isArrayIndex ''42''" "isArrayIndex ''4294967294''"
  "\<not> isArrayIndex ''4294967295''" "\<not> isArrayIndex ''01''" "\<not> isArrayIndex ''''"
  "\<not> isArrayIndex ''undefined''" "\<not> isArrayIndex ''-1''" "\<not> isArrayIndex ''1.5''"
  "\<not> isArrayIndex ''cpuUsage''"
  by code_simp+

lemma ownKeyOrder_example:
  "ownKeyOrder [''b'', ''10'', ''a'', ''9'', ''01'', ''0''] = [''0'', ''9'', ''10'', ''b'', ''a'', ''01'']"
  by code_simp

lemma catalog_key_order: "Object_keys metrics = map fst metrics"
  by code_simp

lemma set_ownKeyOrder: "set (ownKeyOrder ks) = set ks"
  by (auto simp: ownKeyOrder_def)

lemma distinct_ownKeyOrder: "distinct ks \<Longrightarrow> distinct (ownKeyOrder ks)"
  by (auto simp: ownKeyOrder_def)

lemma ownKeyOrder_indices:
  assumes "\<forall>k \<in> set ks. isArrayIndex k"
  shows "ownKeyOrder ks = sort_key indexValue ks"
    and "sorted (map indexValue (ownKeyOrder ks))"
proof -
  from assms have "filter isArrayIndex ks = ks" and "filter (\<lambda>k. \<not> isArrayIndex k) ks = []"
    by (simp_all add: filter_empty_conv)
  then show "ownKeyOrder ks = sort_key indexValue ks" by (simp add: ownKeyOrder_def)
  then show "sorted (map indexValue (ownKeyOrder ks))" by simp
qed

lemma keys_spec_perDeviceSeries:
  "map fst (spec_perDeviceSeries obs) = rev (remdups (rev (map fst obs)))"
  by (simp add: spec_perDeviceSeries_def comp_def)

lemma example_two_devices_keys:
  "Object_keys [(''0'', [\<lparr>time = 30, val = Number 10\<rparr>]),
                (''1'', [\<lparr>time = 30, val = Number 20\<rparr>])] = [''0'', ''1'']"
  by code_simp

lemma example_sparse_keys:
  "Object_keys [(''0'', [\<lparr>time = 30, val = Number 10\<rparr>, \<lparr>time = 90, val = Number 30\<rparr>]),
                (''1'', [\<lparr>time = 30, val = Number 20\<rparr>])] = [''0'', ''1'']"
  by code_simp

lemma sparse_first_seen:
  "ownKeyOrder (rev (remdups (rev (map fst
     (spec_observations ''customMetrics/Gpu usage'' ''customDimensions/GPU #''
       [\<lparr>start = 0, end' = 60, segments =
          [[(''customMetrics/Gpu usage'', Aggregate (Number 10)),
            (''customDimensions/GPU #'', Dimension ''0'')],
           [(''customMetrics/Gpu usage'', Aggregate (Number 20)),
            (''customDimensions/GPU #'', Dimension ''1'')]]\<rparr>,
        \<lparr>start = 60, end' = 120, segments =
          [[(''customMetrics/Gpu usage'', Aggregate (Number 30)),
            (''customDimensions/GPU #'', Dimension ''0'')]]\<rparr>]))))) = [''0'', ''1'']"
  by code_simp

lemma sparse_times_1:
  "spec_deviceTimes ''customDimensions/GPU #'' ''1''
     [\<lparr>start = 0, end' = 60, segments =
        [[(''customMetrics/Gpu usage'', Aggregate (Number 10)),
          (''customDimensions/GPU #'', Dimension ''0'')],
         [(''customMetrics/Gpu usage'', Aggregate (Number 20)),
          (''customDimensions/GPU #'', Dimension ''1'')]]\<rparr>,
      \<lparr>start = 60, end' = 120, segments =
        [[(''customMetrics/Gpu usage'', Aggregate (Number 30)),
          (''customDimensions/GPU #'', Dimension ''0'')]]\<rparr>]
   = [30]"
  by code_simp

text \<open>
  C6, as amended. For a raw result of an individual-device metric (every sub-aggregate
  holds the metric's aggregate, and the device ordinals are no names of
  \<open>Object.prototype\<close>), the fan-out returns a dictionary with one key per distinct
  device observed, created on first sight. Its keys are enumerated with the array
  indices first, in ascending numeric order, and the other keys after them in the order
  of first sight; so device ordinals that are all array indices are enumerated in
  ascending order. Each key holds exactly the samples of its device, in response order,
  each at the midpoint of its own bucket rounded toward zero to a whole millisecond; a
  device absent from a bucket gets no sample for it. One bucket with the devices 0
  (average 10) and 1 (average 20) yields the keys \<open>"0"\<close> and \<open>"1"\<close> with one sample
  each; a device present in the first bucket and absent from the second has a series of
  length 1.
\<close>
theorem processIndividualDeviceUsage_fan_out:
  assumes "getAppInsightsMetricId ident = Inr metricKey"
    and "\<forall>seg \<in> set segs. \<forall>i \<in> set (segments seg). map_of i metricKey \<noteq> None"
    and "\<forall>seg \<in> set segs. \<forall>i \<in> set (segments seg).
           readDeviceId deviceKey i \<notin> set Object_prototype"
  shows "(\<exists>usages. processIndividualDeviceUsage ident deviceKey segs = Inr usages
       \<and> Object_keys usages
           = ownKeyOrder (rev (remdups (rev (map fst (spec_observations metricKey deviceKey segs)))))
       \<and> distinct (Object_keys usages)
       \<and> set (Object_keys usages) = fst ` set (spec_observations metricKey deviceKey segs)
       \<and> ((\<forall>d \<in> fst ` set (spec_observations metricKey deviceKey segs). isArrayIndex d) \<longrightarrow>
            sorted (map indexValue (Object_keys usages)))
       \<and> (\<forall>d. map_of usages d =
             (if d \<in> fst ` set (spec_observations metricKey deviceKey segs)
              then Some (map snd (filter (\<lambda>ob. fst ob = d)
                                    (spec_observations metricKey deviceKey segs)))
              else None))
       \<and> (\<forall>(d, series) \<in> set usages. map time series = spec_deviceTimes deviceKey d segs))
     \<and> processIndividualDeviceUsage ''individualCpuUsage'' ''customDimensions/CPU #''
         [\<lparr>start = 0, end' = 60, segments =
            [[(''customMetrics/Cpu usage'', Aggregate (Number 10)),
              (''customDimensions/CPU #'', Dimension ''0'')],
             [(''customMetrics/Cpu usage'', Aggregate (Number 20)),
              (''customDimensions/CPU #'', Dimension ''1'')]]\<rparr>]
        = Inr [(''0'', [\<lparr>time = 30, val = Number 10\<rparr>]),
               (''1'', [\<lparr>time = 30, val = Number 20\<rparr>])]
     \<and> Object_keys [(''0'', [\<lparr>time = 30, val = Number 10\<rparr>]),
                     (''1'', [\<lparr>time = 30, val = Number 20\<rparr>])] = [''0'', ''1'']
     \<and> processIndividualDeviceUsage ''individualGpuUsage'' ''customDimensions/GPU #''
         [\<lparr>start = 0, end' = 60, segments =
            [[(''customMetrics/Gpu usage'', Aggregate (Number 10)),
              (''customDimensions/GPU #'', Dimension ''0'')],
             [(''customMetrics/Gpu usage'', Aggregate (Number 20)),
              (''customDimensions/GPU #'', Dimension ''1'')]]\<rparr>,
          \<lparr>start = 60, end' = 120, segments =
            [[(''customMetrics/Gpu usage'', Aggregate (Number 30)),
              (''customDimensions/GPU #'', Dimension ''0'')]]\<rparr>]
        = Inr [(''0'', [\<lparr>time = 30, val = Number 10\<rparr>, \<lparr>time = 90, val = Number 30\<rparr>]),
               (''1'', [\<lparr>time = 30, val = Number 20\<rparr>])]"
proof (intro conjI)
  let ?obs = "spec_observations metricKey deviceKey segs"
  let ?K = "rev (remdups (rev (map fst ?obs)))"
  let ?us = "spec_perDeviceSeries ?obs"
  have r: "processIndividualDeviceUsage ident deviceKey segs = Inr ?us"
    by (rule fan_out_general(1) [OF assms])
  note inv = fan_out_general(2) [OF assms]
  have k: "Object_keys ?us = ownKeyOrder ?K"
    by (simp only: Object_keys_def keys_spec_perDeviceSeries)
  have d: "distinct (Object_keys ?us)" by (simp only: k distinct_ownKeyOrder first_seen_distinct)
  have s: "set (Object_keys ?us) = fst ` set ?obs" by (simp add: k set_ownKeyOrder)
  have o: "(\<forall>d \<in> fst ` set ?obs. isArrayIndex d) \<longrightarrow> sorted (map indexValue (Object_keys ?us))"
  proof
    assume "\<forall>d \<in> fst ` set ?obs. isArrayIndex d"
    then have "\<forall>k \<in> set ?K. isArrayIndex k" by simp
    from ownKeyOrder_indices(2) [OF this] show "sorted (map indexValue (Object_keys ?us))"
      by (simp only: k)
  qed
  from inv have m: "\<forall>d. map_of ?us d =
             (if d \<in> fst ` set ?obs
              then Some (map snd (filter (\<lambda>ob. fst ob = d) ?obs))
              else None)"
    by (simp add: represents_def)
  have t: "\<forall>(d, series) \<in> set ?us. map time series = spec_deviceTimes deviceKey d segs"
    using fan_out_own_bucket [OF r] by fast
  from r k d s o m t
  show "\<exists>usages. processIndividualDeviceUsage ident deviceKey segs = Inr usages
       \<and> Object_keys usages = ownKeyOrder ?K
       \<and> distinct (Object_keys usages)
       \<and> set (Object_keys usages) = fst ` set ?obs
       \<and> ((\<forall>d \<in> fst ` set ?obs. isArrayIndex d) \<longrightarrow>
            sorted (map indexValue (Object_keys usages)))
       \<and> (\<forall>d. map_of usages d =
             (if d \<in> fst ` set ?obs
              then Some (map snd (filter (\<lambda>ob. fst ob = d) ?obs))
              else None))
       \<and> (\<forall>(d, series) \<in> set usages. map time series = spec_deviceTimes deviceKey d segs)"
    by blast
qed (rule example_two_devices, rule example_two_devices_keys, rule example_sparse)

theorem processIndividualDeviceUsage_fan_out_witness:
  "getAppInsightsMetricId ''individualGpuUsage'' = Inr ''customMetrics/Gpu usage''
   \<and> processIndividualDeviceUsage ''individualGpuUsage'' ''customDimensions/GPU #''
         [\<lparr>start = 0, end' = 60, segments =
            [[(''customMetrics/Gpu usage'', Aggregate (Number 10)),
              (''customDimensions/GPU #'', Dimension ''0'')],
             [(''customMetrics/Gpu usage'', Aggregate (Number 20)),
              (''customDimensions/GPU #'', Dimension ''1'')]]\<rparr>,
          \<lparr>start = 60, end' = 120, segments =
            [[(''customMetrics/Gpu usage'', Aggregate (Number 30)),
              (''customDimensions/GPU #'', Dimension ''0'')]]\<rparr>]
      = Inr [(''0'', [\<lparr>time = 30, val = Number 10\<rparr>, \<lparr>time = 90, val = Number 30\<rparr>]),
             (''1'', [\<lparr>time = 30, val = Number 20\<rparr>])]
   \<and> Object_keys [(''0'', [\<lparr>time = 30, val = Number 10\<rparr>, \<lparr>time = 90, val = Number 30\<rparr>]),
                   (''1'', [\<lparr>time = 30, val = Number 20\<rparr>])] = [''0'', ''1'']
   \<and> map time [\<lparr>time = 30, val = Number 20\<rparr>] = [30]
   \<and> spec_deviceTimes ''customDimensions/GPU #'' ''1''
         [\<lparr>start = 0, end' = 60, segments =
            [[(''customMetrics/Gpu usage'', Aggregate (Number 10)),
              (''customDimensions/GPU #'', Dimension ''0'')],
             [(''customMetrics/Gpu usage'', Aggregate (Number 20)),
              (''customDimensions/GPU #'', Dimension ''1'')]]\<rparr>,
          \<lparr>start = 60, end' = 120, segments =
            [[(''customMetrics/Gpu usage'', Aggregate (Number 30)),
              (''customDimensions/GPU #'', Dimension ''0'')]]\<rparr>] = [30]"
proof -
  let ?segs = "[\<lparr>start = 0, end' = 60, segments =
            [[(''customMetrics/Gpu usage'', Aggregate (Number 10)),
              (''customDimensions/GPU #'', Dimension ''0'')],
             [(''customMetrics/Gpu usage'', Aggregate (Number 20)),
              (''customDimensions/GPU #'', Dimension ''1'')]]\<rparr>,
          \<lparr>start = 60, end' = 120, segments =
            [[(''customMetrics/Gpu usage'', Aggregate (Number 30)),
              (''customDimensions/GPU #'', Dimension ''0'')]]\<rparr>]"
  let ?us = "[(''0'', [\<lparr>time = 30, val = Number 10\<rparr>, \<lparr>time = 90, val = Number 30\<rparr>]),
             (''1'', [\<lparr>time = 30, val = Number 20\<rparr>])]"
  have h1: "getAppInsightsMetricId ''individualGpuUsage'' = Inr ''customMetrics/Gpu usage''"
    by code_simp
  have h2: "\<forall>seg \<in> set ?segs. \<forall>i \<in> set (segments seg).
      map_of i ''customMetrics/Gpu usage'' \<noteq> None"
    by simp
  have h3: "\<forall>seg \<in> set ?segs. \<forall>i \<in> set (segments seg).
      readDeviceId ''customDimensions/GPU #'' i \<notin> set Object_prototype"
    by (simp add: readDeviceId_def Object_prototype_def)
  from processIndividualDeviceUsage_fan_out [OF h1 h2 h3, THEN conjunct1]
  obtain usages where r: "processIndividualDeviceUsage ''individualGpuUsage''
        ''customDimensions/GPU #'' ?segs = Inr usages"
    and k: "Object_keys usages
        = ownKeyOrder (rev (remdups (rev (map fst
            (spec_observations ''customMetrics/Gpu usage'' ''customDimensions/GPU #'' ?segs)))))"
    and t: "\<forall>(d, series) \<in> set usages.
        map time series = spec_deviceTimes ''customDimensions/GPU #'' d ?segs"
    by blast
  from processIndividualDeviceUsage_fan_out [OF h1 h2 h3, THEN conjunct2, THEN conjunct2, THEN conjunct2]
  have r': "processIndividualDeviceUsage ''individualGpuUsage'' ''customDimensions/GPU #'' ?segs
      = Inr ?us" .
  from r r' have u: "usages = ?us" by simp
  from k have c1: "Object_keys ?us = [''0'', ''1'']" by (simp only: u sparse_first_seen)
  from t have "map time [\<lparr>time = 30, val = Number 20\<rparr>]
      = spec_deviceTimes ''customDimensions/GPU #'' ''1'' ?segs" by (simp add: u)
  then have c2: "map time [\<lparr>time = 30, val = Number 20\<rparr>] = [30]"
    and c3: "spec_deviceTimes ''customDimensions/GPU #'' ''1'' ?segs = [30]"
    by (simp_all only: sparse_times_1)
  from h1 r' c1 c2 c3 show ?thesis by (intro conjI)
qed

text \<open>
  C6 as stated fails on the order of the keys and on the midpoint. A bucket that lists
  device 1 before device 0 yields a dictionary whose keys are enumerated as \<open>"0"\<close>,
  \<open>"1"\<close>: ascending, not in the order of first sight. The sample of the bucket
  \<open>[0, 1)\<close> has the time 0, the bucket's start, not its midpoint.
\<close>
theorem processIndividualDeviceUsage_key_order_counterexample:
  "(\<exists>usages.
      processIndividualDeviceUsage ''individualCpuUsage'' ''customDimensions/CPU #''
        [\<lparr>start = 0, end' = 60, segments =
           [[(''customMetrics/Cpu usage'', Aggregate (Number 20)),
             (''customDimensions/CPU #'', Dimension ''1'')],
            [(''customMetrics/Cpu usage'', Aggregate (Number 10)),
             (''customDimensions/CPU #'', Dimension ''0'')]]\<rparr>] = Inr usages
      \<and> Object_keys usages = [''0'', ''1'']
      \<and> map_of usages ''0'' = Some [\<lparr>time = 30, val = Number 10\<rparr>]
      \<and> map_of usages ''1'' = Some [\<lparr>time = 30, val = Number 20\<rparr>])
   \<and> map fst (spec_observations ''customMetrics/Cpu usage'' ''customDimensions/CPU #''
        [\<lparr>start = 0, end' = 60, segments =
           [[(''customMetrics/Cpu usage'', Aggregate (Number 20)),
             (''customDimensions/CPU #'', Dimension ''1'')],
            [(''customMetrics/Cpu usage'', Aggregate (Number 10)),
             (''customDimensions/CPU #'', Dimension ''0'')]]\<rparr>]) = [''1'', ''0'']
   \<and> (\<exists>usages.
      processIndividualDeviceUsage ''individualCpuUsage'' ''customDimensions/CPU #''
        [\<lparr>start = 0, end' = 1, segments =
           [[(''customMetrics/Cpu usage'', Aggregate (Number 5)),
             (''customDimensions/CPU #'', Dimension ''0'')]]\<rparr>] = Inr usages
      \<and> Object_keys usages = [''0'']
      \<and> map_of usages ''0'' = Some [\<lparr>time = 0, val = Number 5\<rparr>])"
proof (intro conjI)
  let ?us = "[(''1'', [\<lparr>time = 30, val = Number 20\<rparr>]), (''0'', [\<lparr>time = 30, val = Number 10\<rparr>])]"
  have "processIndividualDeviceUsage ''individualCpuUsage'' ''customDimensions/CPU #''
        [\<lparr>start = 0, end' = 60, segments =
           [[(''customMetrics/Cpu usage'', Aggregate (Number 20)),
             (''customDimensions/CPU #'', Dimension ''1'')],
            [(''customMetrics/Cpu usage'', Aggregate (Number 10)),
             (''customDimensions/CPU #'', Dimension ''0'')]]\<rparr>] = Inr ?us" by code_simp
  moreover have "Object_keys ?us = [''0'', ''1'']" by code_simp
  moreover have "map_of ?us ''0'' = Some [\<lparr>time = 30, val = Number 10\<rparr>]" by simp
  moreover have "map_of ?us ''1'' = Some [\<lparr>time = 30, val = Number 20\<rparr>]" by simp
  ultimately show "\<exists>usages.
      processIndividualDeviceUsage ''individualCpuUsage'' ''customDimensions/CPU #''
        [\<lparr>start = 0, end' = 60, segments =
           [[(''customMetrics/Cpu usage'', Aggregate (Number 20)),
             (''customDimensions/CPU #'', Dimension ''1'')],
            [(''customMetrics/Cpu usage'', Aggregate (Number 10)),
             (''customDimensions/CPU #'', Dimension ''0'')]]\<rparr>] = Inr usages
      \<and> Object_keys usages = [''0'', ''1'']
      \<and> map_of usages ''0'' = Some [\<lparr>time = 30, val = Number 10\<rparr>]
      \<and> map_of usages ''1'' = Some [\<lparr>time = 30, val = Number 20\<rparr>]" by blast
next
  show "map fst (spec_observations ''customMetrics/Cpu usage'' ''customDimensions/CPU #''
        [\<lparr>start = 0, end' = 60, segments =
           [[(''customMetrics/Cpu usage'', Aggregate (Number 20)),
             (''customDimensions/CPU #'', Dimension ''1'')],
            [(''customMetrics/Cpu usage'', Aggregate (Number 10)),
             (''customDimensions/CPU #'', Dimension ''0'')]]\<rparr>]) = [''1'', ''0'']"
    by code_simp
next
  let ?us = "[(''0'', [\<lparr>time = 0, val = Number 5\<rparr>])]"
  have "processIndividualDeviceUsage ''individualCpuUsage'' ''customDimensions/CPU #''
        [\<lparr>start = 0, end' = 1, segments =
           [[(''customMetrics/Cpu usage'', Aggregate (Number 5)),
             (''customDimensions/CPU #'', Dimension ''0'')]]\<rparr>] = Inr ?us" by code_simp
  moreover have "Object_keys ?us = [''0'']" by code_simp
  moreover have "map_of ?us ''0'' = Some [\<lparr>time = 0, val = Number 5\<rparr>]" by simp
  ultimately show "\<exists>usages.
      processIndividualDeviceUsage ''individualCpuUsage'' ''customDimensions/CPU #''
        [\<lparr>start = 0, end' = 1, segments =
           [[(''customMetrics/Cpu usage'', Aggregate (Number 5)),
             (''customDimensions/CPU #'', Dimension ''0'')]]\<rparr>] = Inr usages
      \<and> Object_keys usages = [''0'']
      \<and> map_of usages ''0'' = Some [\<lparr>time = 0, val = Number 5\<rparr>]" by blast
qed

section \<open>Properties of the dispatch\<close>

lemma processMetricResult_dispatch:
  "processMetricResult process r =
     (if result_id r \<in> {''individualCpuUsage'', ''individualGpuUsage'', ''individualGpuMemory''}
      then (case processIndividualDeviceUsage (result_id r)
                   (if result_id r = ''individualCpuUsage'' then ''customDimensions/CPU #''
                    else ''customDimensions/GPU #'')
                   (value_segments (body_value r)) of
              Inl e \<Rightarrow> Inl e | Inr u \<Rightarrow> Inr (PerDevice u))
      else (case process (map_of metrics (result_id r)) (body_value r) of
              Inl e \<Rightarrow> Inl e | Inr x \<Rightarrow> Inr (Flat x)))"
  by (simp add: processMetricResult_def processSegmentedMetric_def Let_def)

lemma processMetricResult_tag:
  assumes "processMetricResult process r = Inr p"
  shows "(\<exists>u. p = PerDevice u) =
     (result_id r \<in> {''individualCpuUsage'', ''individualGpuUsage'', ''individualGpuMemory''})"
  using assms unfolding processMetricResult_dispatch
  by (auto split: if_splits sum.splits)

lemma setProperty_entries: "set (setProperty k v obj) \<subseteq> insert (k, v) (set obj)"
  using set_update_subset [of k v obj] by (auto simp: setProperty_def)

lemma processMetricResults_tags:
  assumes "processMetricResults process data performances = Inr report"
    and "\<forall>(k, p) \<in> set performances. (\<exists>u. p = PerDevice u) =
           (k \<in> {''individualCpuUsage'', ''individualGpuUsage'', ''individualGpuMemory''})"
  shows "\<forall>(k, p) \<in> set report. (\<exists>u. p = PerDevice u) =
           (k \<in> {''individualCpuUsage'', ''individualGpuUsage'', ''individualGpuMemory''})"
  using assms
proof (induction data arbitrary: performances)
  case Nil
  then show ?case by simp
next
  case (Cons r rest)
  from Cons.prems(1) obtain p where p: "processMetricResult process r = Inr p"
    and rest: "processMetricResults process rest (setProperty (result_id r) p performances)
                 = Inr report"
    by (auto split: sum.splits)
  have "\<forall>(k, q) \<in> set (setProperty (result_id r) p performances). (\<exists>u. q = PerDevice u) =
           (k \<in> {''individualCpuUsage'', ''individualGpuUsage'', ''individualGpuMemory''})"
  proof (intro ballI, clarify)
    fix k q assume "(k, q) \<in> set (setProperty (result_id r) p performances)"
    with setProperty_entries have "(k, q) = (result_id r, p) \<or> (k, q) \<in> set performances"
      by fastforce
    then show "(\<exists>u. q = PerDevice u) =
           (k \<in> {''individualCpuUsage'', ''individualGpuUsage'', ''individualGpuMemory''})"
      using processMetricResult_tag [OF p] Cons.prems(2) by fastforce
  qed
  from Cons.IH [OF rest this] show ?case .
qed

lemma individual_keys_in_catalog:
  "map fst (filter (\<lambda>(k, m). segment m \<in> {''customDimensions/[CPU #]'', ''customDimensions/[GPU #]''})
     metrics) = [''individualCpuUsage'', ''individualGpuUsage'', ''individualGpuMemory'']"
  by (simp add: metrics_def)

text \<open>
  C7. The reshaper treats a key as an individual-device metric exactly when it is one of
  \<open>individualCpuUsage\<close> (read through the CPU device-dimension path),
  \<open>individualGpuUsage\<close> and \<open>individualGpuMemory\<close> (read through the GPU path);
  every other key goes to the flat processor. The choice looks at the key alone, so in
  every report the per-device entries are exactly those under the three keys, which
  are the catalog's entries segmented by a device dimension.
\<close>

theorem processMetrics_dispatch:
  "processMetricResult process r =
     (if result_id r \<in> {''individualCpuUsage'', ''individualGpuUsage'', ''individualGpuMemory''}
      then (case processIndividualDeviceUsage (result_id r)
                   (if result_id r = ''individualCpuUsage'' then ''customDimensions/CPU #''
                    else ''customDimensions/GPU #'')
                   (value_segments (body_value r)) of
              Inl e \<Rightarrow> Inl e | Inr u \<Rightarrow> Inr (PerDevice u))
      else (case process (map_of metrics (result_id r)) (body_value r) of
              Inl e \<Rightarrow> Inl e | Inr x \<Rightarrow> Inr (Flat x)))
   \<and> (processMetrics process data = Inr report \<longrightarrow>
        (\<forall>(k, p) \<in> set report. (\<exists>u. p = PerDevice u) =
           (k \<in> {''individualCpuUsage'', ''individualGpuUsage'', ''individualGpuMemory''})))
   \<and> map fst (filter (\<lambda>(k, m). segment m \<in>
                 {''customDimensions/[CPU #]'', ''customDimensions/[GPU #]''}) metrics)
      = [''individualCpuUsage'', ''individualGpuUsage'', ''individualGpuMemory'']"
proof (intro conjI impI)
  show "processMetricResult process r =
     (if result_id r \<in> {''individualCpuUsage'', ''individualGpuUsage'', ''individualGpuMemory''}
      then (case processIndividualDeviceUsage (result_id r)
                   (if result_id r = ''individualCpuUsage'' then ''customDimensions/CPU #''
                    else ''customDimensions/GPU #'')
                   (value_segments (body_value r)) of
              Inl e \<Rightarrow> Inl e | Inr u \<Rightarrow> Inr (PerDevice u))
      else (case process (map_of metrics (result_id r)) (body_value r) of
              Inl e \<Rightarrow> Inl e | Inr x \<Rightarrow> Inr (Flat x)))"
    by (rule processMetricResult_dispatch)
  show "map fst (filter (\<lambda>(k, m). segment m \<in>
                 {''customDimensions/[CPU #]'', ''customDimensions/[GPU #]''}) metrics)
      = [''individualCpuUsage'', ''individualGpuUsage'', ''individualGpuMemory'']"
    by (rule individual_keys_in_catalog)
next
  assume "processMetrics process data = Inr report"
  then have "processMetricResults process data [] = Inr report"
    by (simp add: processMetrics_def)
  from processMetricResults_tags [OF this]
  show "\<forall>(k, p) \<in> set report. (\<exists>u. p = PerDevice u) =
           (k \<in> {''individualCpuUsage'', ''individualGpuUsage'', ''individualGpuMemory''})"
    by simp
qed

lemma dispatch_example:
  "processMetrics (\<lambda>m b. Inr (value_segments b))
     [\<lparr>result_id = ''cpuUsage'', body_value = \<lparr>value_segments =
         [\<lparr>start = 0, end' = 60, segments =
           [[(''customMetrics/Cpu usage'', Aggregate (Number 10)),
             (''cloud/roleInstance'', Dimension ''node1'')]]\<rparr>]\<rparr>\<rparr>,
      \<lparr>result_id = ''individualCpuUsage'', body_value = \<lparr>value_segments =
         [\<lparr>start = 0, end' = 60, segments =
           [[(''customMetrics/Cpu usage'', Aggregate (Number 10)),
             (''customDimensions/CPU #'', Dimension ''0'')]]\<rparr>]\<rparr>\<rparr>]
   = Inr [(''cpuUsage'', Flat
            [\<lparr>start = 0, end' = 60, segments =
               [[(''customMetrics/Cpu usage'', Aggregate (Number 10)),
                 (''cloud/roleInstance'', Dimension ''node1'')]]\<rparr>]),
          (''individualCpuUsage'', PerDevice [(''0'', [\<lparr>time = 30, val = Number 10\<rparr>])])]"
  by code_simp

theorem processMetrics_dispatch_witness:
  "processMetrics (\<lambda>m b. Inr (value_segments b))
     [\<lparr>result_id = ''cpuUsage'', body_value = \<lparr>value_segments =
         [\<lparr>start = 0, end' = 60, segments =
           [[(''customMetrics/Cpu usage'', Aggregate (Number 10)),
             (''cloud/roleInstance'', Dimension ''node1'')]]\<rparr>]\<rparr>\<rparr>,
      \<lparr>result_id = ''individualCpuUsage'', body_value = \<lparr>value_segments =
         [\<lparr>start = 0, end' = 60, segments =
           [[(''customMetrics/Cpu usage'', Aggregate (Number 10)),
             (''customDimensions/CPU #'', Dimension ''0'')]]\<rparr>]\<rparr>\<rparr>]
   = Inr [(''cpuUsage'', Flat
            [\<lparr>start = 0, end' = 60, segments =
               [[(''customMetrics/Cpu usage'', Aggregate (Number 10)),
                 (''cloud/roleInstance'', Dimension ''node1'')]]\<rparr>]),
          (''individualCpuUsage'', PerDevice [(''0'', [\<lparr>time = 30, val = Number 10\<rparr>])])]
   \<and> (\<exists>u. PerDevice [(''0'', [\<lparr>time = 30, val = Number 10\<rparr>])]
             = (PerDevice u :: segment list performance))
   \<and> ''individualCpuUsage'' \<in> {''individualCpuUsage'', ''individualGpuUsage'', ''individualGpuMemory''}
   \<and> ''cpuUsage'' \<notin> {''individualCpuUsage'', ''individualGpuUsage'', ''individualGpuMemory''}"
proof -
  from processMetrics_dispatch [THEN conjunct2, THEN conjunct1, THEN mp, OF dispatch_example]
  have "(\<exists>u. PerDevice [(''0'', [\<lparr>time = 30, val = Number 10\<rparr>])]
             = (PerDevice u :: segment list performance))
     = (''individualCpuUsage'' \<in> {''individualCpuUsage'', ''individualGpuUsage'', ''individualGpuMemory''})"
    by simp
  with dispatch_example show ?thesis by simp
qed

end
